theory Spec2Isabelle
  imports Main "HOL-Library.AList" "HOL-Library.Sublist"
begin

section \<open>JavaScript values as the adapter sees them\<close>

text \<open>
  The adapter (\<^verbatim>\<open>lib/nosqldb-adapter/client.js\<close>) receives filters, updates,
  projections and documents as JavaScript values and produces statement text. The values
  are embedded as a datatype:
  \<^item> \<open>Num\<close> carries an integer, standing for the number of that value when its magnitude
    is at most \<open>2^53\<close>: these are the integers that a number holds exactly and writes
    digit by digit. Larger numbers (whose text is rounded, and in exponent form from
    \<open>10^21\<close> on), fractions, \<^verbatim>\<open>NaN\<close> and the infinities are not represented;
  \<^item> \<open>Str\<close> carries the characters of a primitive string;
  \<^item> \<open>DateV ds dt\<close> is a valid \<^verbatim>\<open>Date\<close>, given by the two texts the adapter can
    observe from it: \<^verbatim>\<open>toISOString()\<close> and \<^verbatim>\<open>toString()\<close>;
  \<^item> \<open>ObjectId hex\<close> is a bson \<^verbatim>\<open>ObjectId\<close>, given by its hexadecimal text;
  \<^item> \<open>Arr\<close> is a dense array;
  \<^item> \<open>Obj\<close> is a plain object: its own enumerable properties, in the order in which
    \<^verbatim>\<open>for ... in\<close> enumerates them. Assigning to a property that exists keeps its
    place, assigning to a new one appends it (\<open>AList.update\<close>), \<^verbatim>\<open>delete\<close> is
    \<open>AList.delete\<close>. Inherited properties (methods of the prototypes) are not
    represented.
\<close>

datatype jsval =
    Undefined
  | Null
  | Bool bool
  | Num int
  | Str string
  | DateV string string
  | ObjectId string
  | Arr "jsval list"
  | Obj "(string \<times> jsval) list"

text \<open>Every \<^verbatim>\<open>throw\<close> of the adapter, and the errors of the runtime that the modelled
  paths can meet, are values. \<open>NotModelled\<close> marks an input on which the behaviour of
  JavaScript is outside the embedded fragment (for instance \<^verbatim>\<open>==\<close> between a number and
  an arbitrary string); no result below relies on it.\<close>

datatype error =
    UnexpectedWhereInput
  | FilterNotObject
  | UnknownTopLevelOperator string
  | UnexpectedRegexValue
  | UnexpectedPropertyValue
  | ISE string
  | TooManyBindings string
  | UnknownUpdateOperator string
  | ProjectionConflict
  | MissingSchema
  | UnsupportedPrjType
  | ResultLimitExceeded nat nat
  | TypeError
  | BSONError
  | StoreError string
  | NotModelled

type_synonym props = "(string \<times> jsval) list"

text \<open>The bindings map of a compilation: \<open>None\<close> is \<^verbatim>\<open>undefined\<close> (the statements that
  accept no bind variables pass it), \<open>Some ps\<close> is the object holding the variables.\<close>

type_synonym bindings = "props option"

subsection \<open>Constants of the module\<close>

definition OBJECTID_ENABLED :: bool where
  "OBJECTID_ENABLED = False"

definition OBJECTID_PREFIX :: string where
  "OBJECTID_PREFIX = ''_obid_''"

definition MAX_QUERY_RESULTS_LIMIT :: nat where
  "MAX_QUERY_RESULTS_LIMIT = 10000"

definition MAX_BINDING_NAME :: nat where
  "MAX_BINDING_NAME = 1000"

definition KVID :: string where
  "KVID = ''kvid''"

definition T :: string where
  "T = ''$t''"

text \<open>The double quote, the single quote and the backslash, as one-character strings.\<close>

definition SQ :: string where
  "SQ = [CHR 0x27]"

definition DQ :: string where
  "DQ = [CHR 0x22]"

definition BSL :: string where
  "BSL = [CHR 0x5C]"

subsection \<open>Primitive operations of the language\<close>

text \<open>\<^verbatim>\<open>!v\<close> is \<open>\<not> truthy v\<close>.\<close>

fun truthy :: "jsval \<Rightarrow> bool" where
  "truthy Undefined = False"
| "truthy Null = False"
| "truthy (Bool b) = b"
| "truthy (Num n) = (n \<noteq> 0)"
| "truthy (Str s) = (s \<noteq> [])"
| "truthy (DateV ds dt) = True"
| "truthy (ObjectId h) = True"
| "truthy (Arr xs) = True"
| "truthy (Obj fs) = True"

text \<open>\<^verbatim>\<open>o[k]\<close> on the properties of a plain object: \<^verbatim>\<open>undefined\<close> when absent.\<close>

definition get_prop :: "props \<Rightarrow> string \<Rightarrow> jsval" where
  "get_prop fs k = (case map_of fs k of None \<Rightarrow> Undefined | Some v \<Rightarrow> v)"

definition digit_char :: "nat \<Rightarrow> char" where
  "digit_char d = ''0123456789'' ! d"

text \<open>The decimal text of a natural number (\<^verbatim>\<open>String(n)\<close>, \<^verbatim>\<open>'' + n\<close>).\<close>

function show_nat :: "nat \<Rightarrow> string" where
  "show_nat n = (if n < 10 then [digit_char n] else show_nat (n div 10) @ [digit_char (n mod 10)])"
  by pat_completeness auto
termination
  by (relation "measure id") auto

declare show_nat.simps [simp del]

definition show_int :: "int \<Rightarrow> string" where
  "show_int i = (if i < 0 then ''-'' @ show_nat (nat (- i)) else show_nat (nat i))"

text \<open>The keys and values that \<^verbatim>\<open>for (i in xs)\<close> meets on a dense array.\<close>

fun indexed :: "nat \<Rightarrow> 'a list \<Rightarrow> (string \<times> 'a) list" where
  "indexed i [] = []"
| "indexed i (x # xs) = (show_nat i, x) # indexed (Suc i) xs"

fun join :: "string \<Rightarrow> string list \<Rightarrow> string" where
  "join sep [] = []"
| "join sep [x] = x"
| "join sep (x # y # ys) = x @ sep @ join sep (y # ys)"

text \<open>String conversion (\<^verbatim>\<open>'' + v\<close>). A number is written in decimal, digit by digit
  (as the language does for the integers up to \<open>2^53\<close>). An array joins the conversions of its elements
  with commas, \<^verbatim>\<open>null\<close> and \<^verbatim>\<open>undefined\<close> elements giving the empty text; a plain
  object gives \<^verbatim>\<open>[object Object]\<close>.\<close>

fun to_str :: "jsval \<Rightarrow> string" where
  "to_str Undefined = ''undefined''"
| "to_str Null = ''null''"
| "to_str (Bool b) = (if b then ''true'' else ''false'')"
| "to_str (Num n) = show_int n"
| "to_str (Str s) = s"
| "to_str (DateV ds dt) = dt"
| "to_str (ObjectId h) = h"
| "to_str (Arr xs) =
     join '','' (map (\<lambda>x. if x = Null \<or> x = Undefined then [] else to_str x) xs)"
| "to_str (Obj fs) = ''[object Object]''"

definition hex_char :: "nat \<Rightarrow> char" where
  "hex_char d = ''0123456789abcdef'' ! d"

text \<open>\<^verbatim>\<open>JSON.stringify\<close> on one character of a string.\<close>

definition json_escape :: "char \<Rightarrow> string" where
  "json_escape c =
     (if c = CHR 0x22 then BSL @ DQ
      else if c = CHR 0x5C then BSL @ BSL
      else if c = CHR 0x08 then BSL @ ''b''
      else if c = CHR 0x0C then BSL @ ''f''
      else if c = CHR 0x0A then BSL @ ''n''
      else if c = CHR 0x0D then BSL @ ''r''
      else if c = CHR 0x09 then BSL @ ''t''
      else if of_char c < (32::nat)
        then BSL @ ''u00'' @ [hex_char (of_char c div 16), hex_char (of_char c mod 16)]
      else [c])"

definition json_quote :: "string \<Rightarrow> string" where
  "json_quote s = DQ @ concat (map json_escape s) @ DQ"

text \<open>\<^verbatim>\<open>JSON.stringify(v)\<close> for a value that is not \<^verbatim>\<open>undefined\<close>: a number is
  written as \<open>to_str\<close> writes it, a date and an
  object identifier go through their \<^verbatim>\<open>toJSON\<close>, an \<^verbatim>\<open>undefined\<close> element of an array
  is written \<^verbatim>\<open>null\<close>, an \<^verbatim>\<open>undefined\<close> property is left out. At the top level
  \<^verbatim>\<open>JSON.stringify(undefined)\<close> is \<^verbatim>\<open>undefined\<close>, which \<open>computeLiteral\<close> below never
  asks for.\<close>

fun JSON_stringify :: "jsval \<Rightarrow> string" where
  "JSON_stringify Undefined = ''null''"
| "JSON_stringify Null = ''null''"
| "JSON_stringify (Bool b) = (if b then ''true'' else ''false'')"
| "JSON_stringify (Num n) = show_int n"
| "JSON_stringify (Str s) = json_quote s"
| "JSON_stringify (DateV ds dt) = json_quote ds"
| "JSON_stringify (ObjectId h) = json_quote h"
| "JSON_stringify (Arr xs) = ''['' @ join '','' (map JSON_stringify xs) @ '']''"
| "JSON_stringify (Obj fs) =
     ''{'' @ join '','' (map (\<lambda>(k, v). json_quote k @ '':'' @ JSON_stringify v)
                          (filter (\<lambda>(k, v). v \<noteq> Undefined) fs)) @ ''}''"

section \<open>The collection and its key schema\<close>

text \<open>The fields of \<^verbatim>\<open>OrcoosCollection\<close> that the compilers read. A new collection has a
  simple key: \<^verbatim>\<open>_hasCompositeKeys = false\<close>, \<^verbatim>\<open>_primaryKeyList = [KVID]\<close>.\<close>

record collection =
  hasCompositeKeys :: bool
  primaryKeyList :: "string list"

definition simple_collection :: collection where
  "simple_collection = \<lparr> hasCompositeKeys = False, primaryKeyList = [KVID] \<rparr>"

section \<open>Literals and bind variables\<close>

text \<open>\<^verbatim>\<open>_computeLiteral(value)\<close>: \<^verbatim>\<open>if (!value || value === null) return 'NULL'; else
  return JSON.stringify(value)\<close>.\<close>

definition computeLiteral :: "jsval \<Rightarrow> string" where
  "computeLiteral v = (if \<not> truthy v \<or> v = Null then ''NULL'' else JSON_stringify v)"

text \<open>\<^verbatim>\<open>name.replace('.', '_')\<close> with a string pattern replaces the first occurrence only.\<close>

fun replace_first_dot :: "string \<Rightarrow> string" where
  "replace_first_dot [] = []"
| "replace_first_dot (c # cs) = (if c = CHR ''.'' then CHR ''_'' # cs else c # replace_first_dot cs)"

text \<open>The loop of \<^verbatim>\<open>_storeBinding\<close>: \<^verbatim>\<open>for (let i = 2; i < MAX_BINDING_NAME; i++)\<close>, skipping
  the suffixes whose entry is truthy, storing under the first other one; the
  \<^verbatim>\<open>throw\<close> follows the loop.\<close>

function storeBinding_loop :: "props \<Rightarrow> string \<Rightarrow> jsval \<Rightarrow> nat \<Rightarrow> error + (string \<times> bindings)" where
  "storeBinding_loop b name v i =
     (if i < MAX_BINDING_NAME then
        (if truthy (get_prop b (name @ show_nat i)) then storeBinding_loop b name v (Suc i)
         else Inr (name @ show_nat i, Some (AList.update (name @ show_nat i) v b)))
      else Inl (TooManyBindings name))"
  by pat_completeness auto
termination
  by (relation "measure (\<lambda>(b, name, v, i). MAX_BINDING_NAME - i)") auto

declare storeBinding_loop.simps [simp del]

text \<open>\<^verbatim>\<open>_storeBinding(bindings, name, value)\<close> returns the text to put in the statement
  and leaves the bindings updated. Without a bindings map it returns the literal.\<close>

definition storeBinding :: "bindings \<Rightarrow> string \<Rightarrow> jsval \<Rightarrow> error + (string \<times> bindings)" where
  "storeBinding bindings name v =
     (case bindings of
        None \<Rightarrow> Inr (computeLiteral v, None)
      | Some b \<Rightarrow>
          (let name' = ''$'' @ replace_first_dot name in
           if \<not> truthy (get_prop b name') then Inr (name', Some (AList.update name' v b))
           else storeBinding_loop b name' v 2))"

section \<open>Field paths\<close>

text \<open>\<^verbatim>\<open>prop.split('.')\<close>: never empty; the empty text gives one empty segment.\<close>

fun split_dot :: "string \<Rightarrow> string list" where
  "split_dot [] = [[]]"
| "split_dot (c # cs) =
     (if c = CHR ''.'' then [] # split_dot cs
      else (case split_dot cs of [] \<Rightarrow> [[c]] | w # ws \<Rightarrow> (c # w) # ws))"

text \<open>\<^verbatim>\<open>_isPositiveInteger(str)\<close>: \<^verbatim>\<open>n = Math.floor(Number(str)); n !== Infinity &&
  String(n) === str && n >= 0\<close>. \<^verbatim>\<open>String(n) === str\<close> asks that \<open>str\<close> be the text that the
  language writes for the number it reads from \<open>str\<close>. For the integers up to \<open>2^53\<close>
  that text is the canonical decimal one: digits only, no leading zero unless it is
  \<^verbatim>\<open>0\<close> itself, which is the test below. The embedding follows the digits also where
  the language does not: a digit string beyond \<open>2^53\<close> passes the test of the code only
  when it is the rounded text of the number read from it (\<^verbatim>\<open>9007199254740993\<close> is read
  as \<^verbatim>\<open>9007199254740992\<close> and fails), and the exponent texts that the language writes
  from \<open>10^21\<close> on (\<^verbatim>\<open>1e+21\<close>) pass it; neither case is represented.\<close>

definition is_digit :: "char \<Rightarrow> bool" where
  "is_digit c = (c \<in> set ''0123456789'')"

fun isPositiveInteger :: "string \<Rightarrow> bool" where
  "isPositiveInteger [] = False"
| "isPositiveInteger (c # cs) =
     (list_all is_digit (c # cs) \<and> (if c = CHR ''0'' then cs = [] else True))"

text \<open>\<^verbatim>\<open>_computeDbProp(prop)\<close>. Every caller passes a property name or a substring, so
  \<open>prop\<close> is a string and the final \<^verbatim>\<open>throw\<close> for another type is out of reach.\<close>

definition computeDbProp :: "collection \<Rightarrow> string \<Rightarrow> string" where
  "computeDbProp col prop =
     (if prefix ''_id'' prop then
        (if \<not> hasCompositeKeys col then T @ ''.'' @ KVID
         else T @ ''.'' @ drop (length ''_id'') prop)
      else
        T @ foldl (\<lambda>acc cur. if isPositiveInteger cur then acc @ ''['' @ cur @ '']''
                              else acc @ ''.'' @ DQ @ cur @ DQ) [] (split_dot prop)
          @ ''[]'')"

section \<open>The update compiler\<close>

text \<open>\<^verbatim>\<open>v instanceof Object\<close>: true of every object, false of the primitives.\<close>

fun is_object :: "jsval \<Rightarrow> bool" where
  "is_object (Obj fs) = True"
| "is_object (Arr xs) = True"
| "is_object (DateV ds dt) = True"
| "is_object (ObjectId h) = True"
| "is_object v = False"

text \<open>The keys that \<^verbatim>\<open>for (k in v)\<close> enumerates, each with \<^verbatim>\<open>v[k]\<close>: the properties of a
  plain object, the indices of an array or of a string, nothing for the other values
  (a date and an object identifier have no enumerable property, and the loop over
  \<^verbatim>\<open>null\<close> or \<^verbatim>\<open>undefined\<close> runs no iteration).\<close>

fun forin_entries :: "jsval \<Rightarrow> props" where
  "forin_entries (Obj fs) = fs"
| "forin_entries (Arr xs) = indexed 0 xs"
| "forin_entries (Str s) = indexed 0 (map (\<lambda>c. Str [c]) s)"
| "forin_entries v = []"

text \<open>\<^verbatim>\<open>_computeUpdateSetPutProp(prop, value)\<close>: \<^verbatim>\<open>prop.split('.').reduceRight((acc, cur) =>
  '{"' + cur + '": ' + acc + '}', value)\<close>.\<close>

definition computeUpdateSetPutProp :: "string \<Rightarrow> string \<Rightarrow> string" where
  "computeUpdateSetPutProp prop v =
     foldr (\<lambda>cur acc. ''{'' @ DQ @ cur @ DQ @ '': '' @ acc @ ''}'') (split_dot prop) v"

text \<open>\<^verbatim>\<open>prop.substring(0, prop.lastIndexOf('.'))\<close>: empty when there is no dot.\<close>

definition before_last_dot :: "string \<Rightarrow> string" where
  "before_last_dot s =
     (if CHR ''.'' \<in> set s then rev (tl (dropWhile (\<lambda>c. c \<noteq> CHR ''.'') (rev s))) else [])"

text \<open>\<^verbatim>\<open>_computeUpdateRenamePutProp(prop, renamedProp, value)\<close>. The new name is the
  operand of \<^verbatim>\<open>$rename\<close>; when it is not a string the inner call returns
  \<^verbatim>\<open>undefined\<close>, which the concatenation writes out.\<close>

definition computeUpdateRenamePutProp :: "collection \<Rightarrow> string \<Rightarrow> jsval \<Rightarrow> string \<Rightarrow> string" where
  "computeUpdateRenamePutProp col prop renamedProp v =
     computeDbProp col (before_last_dot prop) @ '' '' @
       (case renamedProp of Str r \<Rightarrow> computeUpdateSetPutProp r v | _ \<Rightarrow> ''undefined'')"

text \<open>The text that one field of an operator's sub-document adds to the clause, for each
  of the eight operators (the loop below reaches it with no other key).\<close>

definition updateField :: "collection \<Rightarrow> string \<Rightarrow> string \<times> jsval \<Rightarrow> string" where
  "updateField col key kv =
     (let setKey = fst kv; v = snd kv; p = computeDbProp col setKey in
      if key = ''$set'' then '', PUT '' @ T @ '' '' @ computeUpdateSetPutProp setKey (computeLiteral v)
      else if key = ''$unset'' then '', REMOVE '' @ p
      else if key = ''$currentDate'' then '', SET '' @ p @ '' = CAST (current_time() AS String)''
      else if key = ''$inc'' then '', SET '' @ p @ '' = '' @ p @ '' + '' @ computeLiteral v
      else if key = ''$min'' then
        '', SET '' @ p @ '' = '' @ ''CASE WHEN '' @ computeLiteral v @ '' < '' @ p @
        '' THEN '' @ computeLiteral v @ '' ELSE '' @ p @ '' END''
      else if key = ''$max'' then
        '', SET '' @ p @ '' = '' @ ''CASE WHEN '' @ computeLiteral v @ '' > '' @ p @
        '' THEN '' @ computeLiteral v @ '' ELSE '' @ p @ '' END''
      else if key = ''$mul'' then '', SET '' @ p @ '' = '' @ p @ '' * '' @ computeLiteral v
      else if key = ''$rename'' then
        '', PUT '' @ computeUpdateRenamePutProp col setKey v p @ '', REMOVE '' @ p
      else [])"

definition update_operators :: "string list" where
  "update_operators =
     [''$set'', ''$unset'', ''$currentDate'', ''$inc'', ''$min'', ''$max'', ''$mul'', ''$rename'']"

text \<open>The outer loop of \<^verbatim>\<open>_computeUpdateClause\<close>, with the clause built so far.\<close>

fun computeUpdateClause_loop :: "collection \<Rightarrow> props \<Rightarrow> string \<Rightarrow> error + string" where
  "computeUpdateClause_loop col [] acc = Inr acc"
| "computeUpdateClause_loop col ((key, v) # rest) acc =
     (if key \<in> set update_operators \<and> is_object v
      then computeUpdateClause_loop col rest
             (acc @ concat (map (updateField col key) (forin_entries v)))
      else Inl (UnknownUpdateOperator key))"

text \<open>\<^verbatim>\<open>_computeUpdateClause(update)\<close>: the loop, then the leading comma is dropped.\<close>

definition computeUpdateClause :: "collection \<Rightarrow> jsval \<Rightarrow> error + string" where
  "computeUpdateClause col update =
     (case computeUpdateClause_loop col (forin_entries update) [] of
        Inl e \<Rightarrow> Inl e
      | Inr c \<Rightarrow> Inr (if prefix '','' c then drop 1 c else c))"

section \<open>The filter compiler\<close>

text \<open>\<^verbatim>\<open>v[k]\<close> on a value that is not \<^verbatim>\<open>null\<close> or \<^verbatim>\<open>undefined\<close>: a property of a plain
  object; an index or the length of an array or of a string; \<^verbatim>\<open>undefined\<close> otherwise.\<close>

fun js_get :: "jsval \<Rightarrow> string \<Rightarrow> jsval" where
  "js_get (Obj fs) k = get_prop fs k"
| "js_get (Arr xs) k =
     (if k = ''length'' then Num (int (length xs)) else get_prop (indexed 0 xs) k)"
| "js_get (Str s) k =
     (if k = ''length'' then Num (int (length s))
      else get_prop (indexed 0 (map (\<lambda>c. Str [c]) s)) k)"
| "js_get v k = Undefined"

text \<open>\<^verbatim>\<open>_isEmptyObject(obj)\<close>: an object without keys that is neither a date nor an object
  identifier; the empty array is one.\<close>

fun isEmptyObject :: "jsval \<Rightarrow> bool" where
  "isEmptyObject (Obj fs) = (fs = [])"
| "isEmptyObject (Arr xs) = (xs = [])"
| "isEmptyObject v = False"

fun is_string :: "jsval \<Rightarrow> bool" where
  "is_string (Str s) = True"
| "is_string v = False"

text \<open>The values of the third arm of \<^verbatim>\<open>_computeCompExp\<close>: a string, a date, a number or
  an object identifier.\<close>

fun is_scalar :: "jsval \<Rightarrow> bool" where
  "is_scalar (Str s) = True"
| "is_scalar (DateV ds dt) = True"
| "is_scalar (Num n) = True"
| "is_scalar (ObjectId h) = True"
| "is_scalar v = False"

text \<open>\<^verbatim>\<open>v == false\<close>, where the embedding decides it: a non-empty string and an object
  are compared after a conversion to a number that is not represented.\<close>

fun loose_eq_false :: "jsval \<Rightarrow> bool option" where
  "loose_eq_false Undefined = Some False"
| "loose_eq_false Null = Some False"
| "loose_eq_false (Bool b) = Some (\<not> b)"
| "loose_eq_false (Num n) = Some (n = 0)"
| "loose_eq_false (Str s) = (if s = [] then Some True else None)"
| "loose_eq_false v = None"

text \<open>\<^verbatim>\<open>v == 'i'\<close>: a string is compared as it is, an object through its string
  conversion; a number, a boolean, \<^verbatim>\<open>null\<close> and \<^verbatim>\<open>undefined\<close> never equal \<^verbatim>\<open>'i'\<close>.\<close>

fun loose_eq_i :: "jsval \<Rightarrow> bool" where
  "loose_eq_i (Str s) = (s = ''i'')"
| "loose_eq_i (Arr xs) = (to_str (Arr xs) = ''i'')"
| "loose_eq_i (Obj fs) = (to_str (Obj fs) = ''i'')"
| "loose_eq_i (DateV ds dt) = (dt = ''i'')"
| "loose_eq_i (ObjectId h) = (h = ''i'')"
| "loose_eq_i v = False"

text \<open>\<^verbatim>\<open>opts && opts.includes(c)\<close>: on a string a substring test (here of one character),
  on an array a membership test; a falsy value stops at \<^verbatim>\<open>&&\<close>; any other value has
  no \<^verbatim>\<open>includes\<close> and the call raises.\<close>

fun options_include :: "jsval \<Rightarrow> char \<Rightarrow> error + bool" where
  "options_include (Str s) c = Inr (c \<in> set s)"
| "options_include (Arr xs) c = Inr (Str [c] \<in> set xs)"
| "options_include v c = (if truthy v then Inl TypeError else Inr False)"

text \<open>\<^verbatim>\<open>_computeWherePk(bindings, _id)\<close>, composite key: one equality for each key field
  whose value in \<open>_id\<close> is truthy, each storing its binding, in the order of the list.\<close>

fun wherePk_fields :: "jsval \<Rightarrow> string list \<Rightarrow> bindings \<Rightarrow> error + (string list \<times> bindings)" where
  "wherePk_fields idv [] b = Inr ([], b)"
| "wherePk_fields idv (v # vs) b =
     (case storeBinding b (''id_'' @ v) (js_get idv v) of
        Inl e \<Rightarrow> Inl e
      | Inr (n, b') \<Rightarrow>
          (case wherePk_fields idv vs b' of
             Inl e \<Rightarrow> Inl e
           | Inr (ts, b'') \<Rightarrow> Inr ((T @ ''.'' @ v @ '' = '' @ n) # ts, b'')))"

text \<open>The names that every object inherits from \<^verbatim>\<open>Object.prototype\<close>. Reading one of
  them from a plain object gives the inherited member, which the embedding does not
  represent: where the source reads a property under a name that the caller or the
  table chooses, such a name is answered with \<open>NotModelled\<close>.\<close>

definition inherited_names :: "string list" where
  "inherited_names =
     [''constructor'', ''__proto__'', ''hasOwnProperty'', ''isPrototypeOf'',
      ''propertyIsEnumerable'', ''toLocaleString'', ''toString'', ''valueOf'',
      ''__defineGetter__'', ''__defineSetter__'', ''__lookupGetter__'', ''__lookupSetter__'']"

fun is_plain_object :: "jsval \<Rightarrow> bool" where
  "is_plain_object (Obj fs) = True"
| "is_plain_object v = False"

text \<open>\<^verbatim>\<open>_computeWherePk(bindings, _id)\<close>. On a simple key the string conversion of \<open>_id\<close>
  is bound under \<open>id\<close>. On a composite key \<open>_id\<close> is read field by field: the embedding
  covers a plain object (a string or an array also has inherited members under short
  names).\<close>

definition computeWherePk :: "collection \<Rightarrow> bindings \<Rightarrow> jsval \<Rightarrow> error + (string \<times> bindings)" where
  "computeWherePk col bindings idv =
     (if \<not> hasCompositeKeys col then
        (case storeBinding bindings ''id'' (Str (to_str idv)) of
           Inl e \<Rightarrow> Inl e
         | Inr (n, b') \<Rightarrow> Inr (T @ ''.'' @ KVID @ '' = '' @ n, b'))
      else if \<not> is_plain_object idv \<or> list_ex (\<lambda>v. v \<in> set inherited_names) (primaryKeyList col)
        then Inl NotModelled
      else
        (case wherePk_fields idv (filter (\<lambda>v. truthy (js_get idv v)) (primaryKeyList col)) bindings of
           Inl e \<Rightarrow> Inl e
         | Inr (ts, b') \<Rightarrow> Inr (join '' AND '' ts, b')))"

text \<open>The loop over the elements of \<^verbatim>\<open>$in\<close> and \<^verbatim>\<open>$nin\<close>: the index \<open>i\<close>, the flag
  \<open>containsNull\<close>, the text \<open>inRes\<close> and the count \<open>inValCount\<close> are the loop's variables.\<close>

fun in_loop :: "string \<Rightarrow> jsval list \<Rightarrow> nat \<Rightarrow> bool \<Rightarrow> string \<Rightarrow> nat \<Rightarrow> bindings
    \<Rightarrow> error + (string \<times> bool \<times> nat \<times> bindings)" where
  "in_loop prop [] i containsNull inRes inValCount b = Inr (inRes, containsNull, inValCount, b)"
| "in_loop prop (x # xs) i containsNull inRes inValCount b =
     (if x = Null then in_loop prop xs (Suc i) True inRes inValCount b
      else
        (case storeBinding b prop x of
           Inl e \<Rightarrow> Inl e
         | Inr (n, b') \<Rightarrow>
             in_loop prop xs (Suc i) containsNull
               ((if i > (if containsNull then 1 else 0) then inRes @ '','' else inRes) @ n)
               (Suc inValCount) b'))"

definition comparison_operators :: "(string \<times> string) list" where
  "comparison_operators =
     [(''$gt'', '' > ''), (''$gte'', '' >= ''), (''$lt'', '' < ''), (''$lte'', '' <= ''),
      (''$ne'', '' != ''), (''$eq'', '' = '')]"

text \<open>One case of the inner \<^verbatim>\<open>switch (firstProp)\<close>: the text appended to \<open>lres\<close>.
  \<open>pv\<close> is \<open>propValue\<close> and \<open>v\<close> is \<open>propValue[firstProp]\<close>.\<close>

definition compExp_op :: "collection \<Rightarrow> string \<Rightarrow> jsval \<Rightarrow> string \<Rightarrow> jsval \<Rightarrow> bindings
    \<Rightarrow> error + (string \<times> bindings)" where
  "compExp_op col prop pv firstProp v b =
     (case map_of comparison_operators firstProp of
        Some cmp \<Rightarrow>
          (case storeBinding b prop v of
             Inl e \<Rightarrow> Inl e
           | Inr (n, b') \<Rightarrow> Inr (''('' @ computeDbProp col prop @ cmp @ n @ '')'', b'))
      | None \<Rightarrow>
          if firstProp = ''$exists'' then
            (case loose_eq_false v of
               None \<Rightarrow> Inl NotModelled
             | Some f \<Rightarrow>
                 Inr (''('' @ (if f then ''NOT '' else []) @ ''EXISTS '' @ T @ ''.'' @ DQ @ prop @ DQ @ '')'', b))
          else if firstProp = ''$options'' then Inr ([], b)
          else if firstProp = ''$regex'' then
            (if is_object v \<and> truthy (js_get v ''$regex'') \<and> truthy (js_get v ''$options'')
                \<and> loose_eq_i (js_get v ''$options'')
             then
               (case storeBinding b prop (js_get v ''$regex'') of
                  Inl e \<Rightarrow> Inl e
                | Inr (n, b') \<Rightarrow>
                    Inr (''( regex_like('' @ computeDbProp col prop @ '', '' @ n @ '') )'', b'))
             else if is_string (js_get pv ''$regex'') then
               (case options_include (js_get pv ''$options'') (CHR ''i'') of
                  Inl e \<Rightarrow> Inl e
                | Inr oi \<Rightarrow>
                    (case options_include (js_get pv ''$options'') (CHR ''s'') of
                       Inl e \<Rightarrow> Inl e
                     | Inr os \<Rightarrow>
                         (case storeBinding b prop (js_get pv ''$regex'') of
                            Inl e \<Rightarrow> Inl e
                          | Inr (n, b') \<Rightarrow>
                              Inr (''( regex_like('' @ computeDbProp col prop @ '', '' @ n @ '','' @ DQ
                                     @ (if oi then ''i'' else []) @ (if os then ''s'' else [])
                                     @ DQ @ '') )'', b'))))
             else Inl UnexpectedRegexValue)
          else if firstProp = ''$in'' \<or> firstProp = ''$nin'' then
            (case v of
               Arr xs \<Rightarrow>
                 (if length xs > 0 then
                    (case in_loop prop xs 0 False '' IN ('' 0 b of
                       Inl e \<Rightarrow> Inl e
                     | Inr (inRes0, containsNull, inValCount, b') \<Rightarrow>
                         (let kvProp = computeDbProp col prop; inRes = inRes0 @ '')'' in
                          if firstProp = ''$in'' then
                            Inr ((if inValCount > 0
                                  then ''('' @ kvProp @ inRes @ '' OR EXISTS ('' @ kvProp @ ''[$element'' @ inRes @ ''])''
                                  else [])
                                 @ (if containsNull then '' OR NOT EXISTS '' @ kvProp else [])
                                 @ '')'', b')
                          else
                            Inr ((if inValCount > 0
                                  then '' NOT ('' @ kvProp @ inRes @ '' OR EXISTS ('' @ kvProp @ ''[$element'' @ inRes @ ''])''
                                  else [])
                                 @ (if containsNull then '' OR EXISTS '' @ kvProp else [])
                                 @ '')'', b')))
                  else Inr ([], b))
             | _ \<Rightarrow> Inr ([], b))
          else if firstProp = ''$size'' then
            Inr (''( size(['' @ computeDbProp col prop @ '']) = '' @ to_str v @ '' )'', b)
          else Inl UnexpectedPropertyValue)"

text \<open>The loop \<^verbatim>\<open>for (const firstProp in propValue)\<close> with \<open>lres\<close> built so far.\<close>

fun compExp_ops :: "collection \<Rightarrow> string \<Rightarrow> jsval \<Rightarrow> props \<Rightarrow> string \<Rightarrow> bindings
    \<Rightarrow> error + (string \<times> bindings)" where
  "compExp_ops col prop pv [] lres b = Inr (lres, b)"
| "compExp_ops col prop pv ((firstProp, v) # rest) lres b =
     (case compExp_op col prop pv firstProp v b of
        Inl e \<Rightarrow> Inl e
      | Inr (t, b') \<Rightarrow>
          compExp_ops col prop pv rest
            ((if lres \<noteq> [] \<and> firstProp \<noteq> ''$options'' then lres @ '' AND '' else lres) @ t) b')"

text \<open>The binding of the scalar arm for \<open>_id\<close> on a composite key: one equality per key
  field, all bound to the same value.\<close>

fun idEq_fields :: "string \<Rightarrow> jsval \<Rightarrow> string list \<Rightarrow> bindings \<Rightarrow> error + (string list \<times> bindings)" where
  "idEq_fields prop pv [] b = Inr ([], b)"
| "idEq_fields prop pv (v # vs) b =
     (case storeBinding b (prop @ ''_'' @ v) pv of
        Inl e \<Rightarrow> Inl e
      | Inr (n, b') \<Rightarrow>
          (case idEq_fields prop pv vs b' of
             Inl e \<Rightarrow> Inl e
           | Inr (ts, b'') \<Rightarrow> Inr ((''t.'' @ v @ '' = '' @ n) # ts, b'')))"

text \<open>The second and third arms of the loop of \<^verbatim>\<open>_computeCompExp\<close>, for a property whose
  name does not start with \<^verbatim>\<open>$\<close>: the text appended to \<open>res\<close>.\<close>

definition compExp_field :: "collection \<Rightarrow> string \<Rightarrow> jsval \<Rightarrow> bindings \<Rightarrow> error + (string \<times> bindings)" where
  "compExp_field col prop pv b =
     (if is_object pv \<and> length (forin_entries pv) > 0 then
        compExp_ops col prop pv (forin_entries pv) [] b
      else if is_scalar pv then
        (if prop = ''_id'' then
           (if hasCompositeKeys col then
              (case idEq_fields prop pv (primaryKeyList col) b of
                 Inl e \<Rightarrow> Inl e
               | Inr (ts, b') \<Rightarrow> Inr (''('' @ join '' AND '' ts @ '')'', b'))
            else
              (case storeBinding b prop pv of
                 Inl e \<Rightarrow> Inl e
               | Inr (n, b') \<Rightarrow> Inr (''(t.'' @ KVID @ '' = '' @ n @ '')'', b')))
         else
           (case storeBinding b prop pv of
              Inl e \<Rightarrow> Inl e
            | Inr (n, b') \<Rightarrow> Inr (''('' @ computeDbProp col prop @ '' =any '' @ n @ '')'', b')))
      else Inl (ISE prop))"

text \<open>The loop of \<^verbatim>\<open>_computeCompExp\<close> over the indices of an array or of a string: no
  index starts with \<^verbatim>\<open>$\<close>, so every element goes through \<open>compExp_field\<close>.\<close>

fun compExp_elems :: "collection \<Rightarrow> props \<Rightarrow> string \<Rightarrow> bindings \<Rightarrow> error + (string \<times> bindings)" where
  "compExp_elems col [] res b = Inr (res, b)"
| "compExp_elems col ((prop, pv) # rest) res b =
     (case compExp_field col prop pv b of
        Inl e \<Rightarrow> Inl e
      | Inr (t, b') \<Rightarrow> compExp_elems col rest ((if res \<noteq> [] then res @ '' AND '' else res) @ t) b')"

text \<open>The last two statements of \<^verbatim>\<open>_computeCompExp\<close>.\<close>

definition wrap_res :: "error + (string \<times> bindings) \<Rightarrow> error + (string \<times> bindings)" where
  "wrap_res r =
     (case r of
        Inl e \<Rightarrow> Inl e
      | Inr (res, b) \<Rightarrow> Inr (if res = [] then [] else ''('' @ res @ '')'', b))"

text \<open>\<^verbatim>\<open>_computeCompExp\<close> on each character of a string in turn: the children that the
  loop of \<^verbatim>\<open>$or\<close>, \<^verbatim>\<open>$and\<close> and \<^verbatim>\<open>$nor\<close> compiles when the operand is a string.\<close>

fun compExp_chars :: "collection \<Rightarrow> string \<Rightarrow> bindings \<Rightarrow> error + (string list \<times> bindings)" where
  "compExp_chars col [] b = Inr ([], b)"
| "compExp_chars col (c # cs) b =
     (case wrap_res (compExp_elems col (indexed 0 [Str [c]]) [] b) of
        Inl e \<Rightarrow> Inl e
      | Inr (t, b') \<Rightarrow>
          (case compExp_chars col cs b' of
             Inl e \<Rightarrow> Inl e
           | Inr (ts, b'') \<Rightarrow> Inr (t # ts, b'')))"

text \<open>
  \<^verbatim>\<open>_computeCompExp(compObj, bindings)\<close>.
  \<^item> \<open>compExp_props\<close> is the loop over the properties of a plain object, with \<open>res\<close>
    built so far.
  \<^item> \<open>compExp_list\<close> is the loop \<^verbatim>\<open>for (let i = 0; i < propValue.length; i++)\<close> of
    \<^verbatim>\<open>$or\<close>, \<^verbatim>\<open>$and\<close>, \<^verbatim>\<open>$not\<close> and \<^verbatim>\<open>$nor\<close> over an array: the compiled
    children, which the caller joins with the separator.
  \<^item> \<open>compExp_operand\<close> is the same loop for any operand. The guards
    \<^verbatim>\<open>!propValue instanceof Array\<close> of the source negate \<open>propValue\<close> first and are
    never true, so nothing is thrown there: a string is walked character by character,
    \<^verbatim>\<open>null\<close> and \<^verbatim>\<open>undefined\<close> raise on \<^verbatim>\<open>.length\<close>, an object without a
    \<open>length\<close> property runs no iteration (one that has it is not represented).
\<close>

function (sequential) computeCompExp :: "collection \<Rightarrow> jsval \<Rightarrow> bindings \<Rightarrow> error + (string \<times> bindings)"
  and compExp_props :: "collection \<Rightarrow> props \<Rightarrow> string \<Rightarrow> bindings \<Rightarrow> error + (string \<times> bindings)"
  and compExp_list :: "collection \<Rightarrow> jsval list \<Rightarrow> bindings \<Rightarrow> error + (string list \<times> bindings)"
  and compExp_operand :: "collection \<Rightarrow> jsval \<Rightarrow> bindings \<Rightarrow> error + (string list \<times> bindings)"
where
  "computeCompExp col (ObjectId h) b = Inr (h, b)"
| "computeCompExp col (Obj fs) b = wrap_res (compExp_props col fs [] b)"
| "computeCompExp col (Arr xs) b = wrap_res (compExp_elems col (indexed 0 xs) [] b)"
| "computeCompExp col (Str s) b =
     wrap_res (compExp_elems col (indexed 0 (map (\<lambda>c. Str [c]) s)) [] b)"
| "computeCompExp col Undefined b = Inr ([], b)"
| "computeCompExp col Null b = Inr ([], b)"
| "computeCompExp col (Bool x) b = Inr ([], b)"
| "computeCompExp col (Num n) b = Inr ([], b)"
| "computeCompExp col (DateV ds dt) b = Inr ([], b)"
| "compExp_props col [] res b = Inr (res, b)"
| "compExp_props col ((prop, pv) # rest) res b =
     (if prefix ''$'' prop then
        (if prop = ''$or'' then
           (case compExp_operand col pv b of
              Inl e \<Rightarrow> Inl e
            | Inr (ts, b') \<Rightarrow>
                compExp_props col rest
                  ((if res \<noteq> [] then res @ '' AND '' else res) @ ''('' @ join '' OR '' ts @ '')'') b')
         else if prop = ''$and'' then
           (case compExp_operand col pv b of
              Inl e \<Rightarrow> Inl e
            | Inr (ts, b') \<Rightarrow>
                compExp_props col rest
                  ((if res \<noteq> [] then res @ '' AND '' else res) @ ''('' @ join '' AND '' ts @ '')'') b')
         else if prop = ''$not'' then
           (case pv of
              Arr xs \<Rightarrow>
                (case compExp_list col xs b of
                   Inl e \<Rightarrow> Inl e
                 | Inr (ts, b') \<Rightarrow>
                     compExp_props col rest
                       ((if res \<noteq> [] then res @ '' AND '' else res) @ ''NOT('' @ join '' AND '' ts @ '')'') b')
            | _ \<Rightarrow>
                (case computeCompExp col pv b of
                   Inl e \<Rightarrow> Inl e
                 | Inr (t, b') \<Rightarrow>
                     compExp_props col rest
                       ((if res \<noteq> [] then res @ '' AND '' else res) @ ''NOT('' @ t @ '')'') b'))
         else if prop = ''$nor'' then
           (case compExp_operand col pv b of
              Inl e \<Rightarrow> Inl e
            | Inr (ts, b') \<Rightarrow>
                compExp_props col rest
                  ((if res \<noteq> [] then res @ '' AND '' else res) @ ''NOT('' @ join '' OR '' ts @ '')'') b')
         else Inl (UnknownTopLevelOperator prop))
      else
        (case compExp_field col prop pv b of
           Inl e \<Rightarrow> Inl e
         | Inr (t, b') \<Rightarrow>
             compExp_props col rest ((if res \<noteq> [] then res @ '' AND '' else res) @ t) b'))"
| "compExp_list col [] b = Inr ([], b)"
| "compExp_list col (x # xs) b =
     (case computeCompExp col x b of
        Inl e \<Rightarrow> Inl e
      | Inr (t, b') \<Rightarrow>
          (case compExp_list col xs b' of
             Inl e \<Rightarrow> Inl e
           | Inr (ts, b'') \<Rightarrow> Inr (t # ts, b'')))"
| "compExp_operand col (Arr xs) b = compExp_list col xs b"
| "compExp_operand col (Str s) b = compExp_chars col s b"
| "compExp_operand col Null b = Inl TypeError"
| "compExp_operand col Undefined b = Inl TypeError"
| "compExp_operand col (Obj fs) b =
     (if map_of fs ''length'' = None then Inr ([], b) else Inl NotModelled)"
| "compExp_operand col (Bool x) b = Inr ([], b)"
| "compExp_operand col (Num n) b = Inr ([], b)"
| "compExp_operand col (DateV ds dt) b = Inr ([], b)"
| "compExp_operand col (ObjectId h) b = Inr ([], b)"
  by pat_completeness auto
termination
  by (relation "measure (\<lambda>x. case x of
          Inl (Inl (col, v, b)) \<Rightarrow> size v
        | Inl (Inr (col, fs, res, b)) \<Rightarrow> size_list (size_prod (\<lambda>x. 0) size) fs
        | Inr (Inl (col, xs, b)) \<Rightarrow> size_list size xs
        | Inr (Inr (col, v, b)) \<Rightarrow> size v)") auto

text \<open>\<^verbatim>\<open>_computeCompStartExp(compObj, bindings)\<close>.\<close>

definition computeCompStartExp :: "collection \<Rightarrow> jsval \<Rightarrow> bindings \<Rightarrow> error + (string \<times> bindings)" where
  "computeCompStartExp col compObj b =
     (if \<not> truthy compObj \<or> \<not> is_object compObj then Inl FilterNotObject
      else computeCompExp col compObj b)"

text \<open>\<^verbatim>\<open>_computeWhere(filter, bindings)\<close>. In the identity arm the source calls
  \<^verbatim>\<open>_computeWherePk\<close> once for \<open>whereExp\<close> and, when that text is not empty, a second
  time for the text it returns; both calls store their bindings.\<close>

definition computeWhere :: "collection \<Rightarrow> jsval \<Rightarrow> bindings \<Rightarrow> error + (string \<times> bindings)" where
  "computeWhere col flt bindings =
     (if \<not> truthy flt \<or> isEmptyObject flt then Inr ([], bindings)
      else if \<not> is_object flt then Inl UnexpectedWhereInput
      else
        (let idv = js_get flt ''_id'' in
         if truthy idv \<and> (is_string idv \<or> is_object idv) then
           (case computeWherePk col bindings idv of
              Inl e \<Rightarrow> Inl e
            | Inr (whereExp, b1) \<Rightarrow>
                if length whereExp > 0 then
                  (case computeWherePk col b1 idv of
                     Inl e \<Rightarrow> Inl e
                   | Inr (w2, b2) \<Rightarrow> Inr ('' WHERE ('' @ w2 @ '')'', b2))
                else Inr ([], b1))
         else
           (case computeCompStartExp col flt bindings of
              Inl e \<Rightarrow> Inl e
            | Inr (cond, b1) \<Rightarrow> if cond = [] then Inr ([], b1) else Inr ('' WHERE '' @ cond, b1))))"

section \<open>The projection compiler\<close>

definition nullish :: "jsval \<Rightarrow> bool" where
  "nullish v = (v = Null \<or> v = Undefined)"

text \<open>The characters that can stand in a numeric literal (digits, signs, the point, the
  exponent and radix letters, the hexadecimal digits, the letters of \<^verbatim>\<open>Infinity\<close>) and
  the white space of ASCII.\<close>

definition numeric_chars :: string where
  "numeric_chars = ''0123456789+-.eExXoObBaAcCdDfFInity'' @ [CHR 0x20, CHR 0x09, CHR 0x0A, CHR 0x0B, CHR 0x0C, CHR 0x0D]"

text \<open>\<^verbatim>\<open>v == n\<close> for a number \<open>n\<close>, which is also \<^verbatim>\<open>v == true\<close> for \<open>n = 1\<close> and
  \<^verbatim>\<open>v == false\<close> for \<open>n = 0\<close>. A boolean counts as \<open>1\<close> or \<open>0\<close>; \<^verbatim>\<open>null\<close> and
  \<^verbatim>\<open>undefined\<close> equal no number; the empty string counts as \<open>0\<close>; a string holding an
  ASCII character that no numeric literal holds is not a number and equals none. The
  other strings and the objects go through conversions that are not represented
  (\<open>None\<close>).\<close>

fun loose_eq_num :: "jsval \<Rightarrow> int \<Rightarrow> bool option" where
  "loose_eq_num (Num m) n = Some (m = n)"
| "loose_eq_num (Bool b) n = Some ((if b then 1 else 0) = n)"
| "loose_eq_num Null n = Some False"
| "loose_eq_num Undefined n = Some False"
| "loose_eq_num (Str s) n =
     (if s = [] then Some (n = 0)
      else if list_ex (\<lambda>c. of_char c < (128 :: nat) \<and> c \<notin> set numeric_chars) s then Some False
      else None)"
| "loose_eq_num v n = None"

text \<open>\<^verbatim>\<open>prop.indexOf('.')\<close> when it is positive: the text before the first dot and the
  text after it.\<close>

definition dot_split :: "string \<Rightarrow> (string \<times> string) option" where
  "dot_split s =
     (let base = takeWhile (\<lambda>c. c \<noteq> CHR ''.'') s in
      if base \<noteq> [] \<and> length base < length s then Some (base, drop (Suc (length base)) s)
      else None)"

lemma dot_split_shorter: "dot_split s = Some (base, child) \<Longrightarrow> length child < length s"
  by (auto simp: dot_split_def Let_def split: if_splits)

text \<open>\<^verbatim>\<open>_computePrjObjDeep(prjObj, prop, value)\<close>: the tree of the projection, one level
  per segment. The source changes \<open>prjObj\<close> in place; the embedding returns it. A leaf
  that is already there is kept (the source builds an \<^verbatim>\<open>Error\<close> and does not throw
  it). Going below a value that is not a plain object is not represented.\<close>

function computePrjObjDeep :: "props \<Rightarrow> string \<Rightarrow> jsval \<Rightarrow> error + props" where
  "computePrjObjDeep prjObj prop v =
     (case dot_split prop of
        Some (propBase, propChild) \<Rightarrow>
          (if propBase \<in> set inherited_names then Inl NotModelled
           else
             (case (if nullish (get_prop prjObj propBase) then Obj [] else get_prop prjObj propBase) of
                Obj fs \<Rightarrow>
                  (case computePrjObjDeep fs propChild v of
                     Inl e \<Rightarrow> Inl e
                   | Inr fs' \<Rightarrow> Inr (AList.update propBase (Obj fs') prjObj))
              | _ \<Rightarrow> Inl NotModelled))
      | None \<Rightarrow>
          (if prop \<in> set inherited_names then Inl NotModelled
           else Inr (if nullish (get_prop prjObj prop) then AList.update prop v prjObj else prjObj)))"
  by pat_completeness auto
termination
  by (relation "measure (\<lambda>(prjObj, prop, v). length prop)") (auto dest: dot_split_shorter)

declare computePrjObjDeep.simps [simp del]

text \<open>The first loop of \<^verbatim>\<open>_conputeProjection\<close>, over the properties of the projection,
  with \<open>prjType\<close> and \<open>prjObj\<close> as they stand. The first two arms test \<open>prjType\<close> and
  throw; the third one, for every other value, sets \<open>prjType\<close> to \<open>1\<close> without a test.\<close>

fun prj_scan :: "props \<Rightarrow> int \<Rightarrow> props \<Rightarrow> error + (int \<times> props)" where
  "prj_scan [] prjType prjObj = Inr (prjType, prjObj)"
| "prj_scan ((prop, v) # rest) prjType prjObj =
     (if prop = ''_id'' then prj_scan rest prjType prjObj
      else
        (case loose_eq_num v 1 of
           None \<Rightarrow> Inl NotModelled
         | Some True \<Rightarrow>
             (if prjType = - 1 then Inl ProjectionConflict
              else
                (case computePrjObjDeep prjObj prop v of
                   Inl e \<Rightarrow> Inl e
                 | Inr prjObj' \<Rightarrow> prj_scan rest 1 prjObj'))
         | Some False \<Rightarrow>
             (case loose_eq_num v 0 of
                None \<Rightarrow> Inl NotModelled
              | Some True \<Rightarrow>
                  (if prjType = 1 then Inl ProjectionConflict
                   else
                     (case computePrjObjDeep prjObj prop v of
                        Inl e \<Rightarrow> Inl e
                      | Inr prjObj' \<Rightarrow> prj_scan rest (- 1) prjObj'))
              | Some False \<Rightarrow>
                  (case computePrjObjDeep prjObj prop v of
                     Inl e \<Rightarrow> Inl e
                   | Inr prjObj' \<Rightarrow> prj_scan rest 1 prjObj'))))"

text \<open>\<^verbatim>\<open>_computePrjDeep(propBase, propChild, schema)\<close> on a child that is not an object: a
  number is written as it is, a string that starts with \<^verbatim>\<open>$\<close> is a path, another
  string is quoted, anything else is refused. The arm for an object child (nested
  fields and the operator sublanguage, which consult the schema) is not represented.\<close>

fun computePrjDeep :: "collection \<Rightarrow> string \<Rightarrow> jsval \<Rightarrow> error + string" where
  "computePrjDeep col propBase (Num n) = Inr (show_int n)"
| "computePrjDeep col propBase (Str s) =
     (if prefix ''$'' s then Inr (computeDbProp col (drop 1 s)) else Inr (SQ @ s @ SQ))"
| "computePrjDeep col propBase (Bool b) = Inl UnsupportedPrjType"
| "computePrjDeep col propBase Null = Inl UnsupportedPrjType"
| "computePrjDeep col propBase Undefined = Inl UnsupportedPrjType"
| "computePrjDeep col propBase v = Inl NotModelled"

text \<open>The last loop of \<^verbatim>\<open>_conputeProjection\<close>, over the properties of \<open>prjObj\<close>, with
  \<open>res\<close> as built so far: the separator is added before the value is looked at.\<close>

fun prj_render :: "collection \<Rightarrow> props \<Rightarrow> string \<Rightarrow> error + string" where
  "prj_render col [] res = Inr res"
| "prj_render col ((prop, v) # rest) res =
     (case loose_eq_num v 0 of
        None \<Rightarrow> Inl NotModelled
      | Some True \<Rightarrow> prj_render col rest (if res \<noteq> [] then res @ '', '' else res)
      | Some False \<Rightarrow>
          (case loose_eq_num v 1 of
             None \<Rightarrow> Inl NotModelled
           | Some True \<Rightarrow>
               prj_render col rest
                 ((if res \<noteq> [] then res @ '', '' else res) @ computeDbProp col prop @ '' AS '' @ prop)
           | Some False \<Rightarrow>
               (case computePrjDeep col prop v of
                  Inl e \<Rightarrow> Inl e
                | Inr t \<Rightarrow>
                    prj_render col rest
                      ((if res \<noteq> [] then res @ '', '' else res) @ t @ '' AS '' @ prop))))"

text \<open>\<^verbatim>\<open>_conputeProjection(projection, schema)\<close>. \<open>schema_given\<close> says whether a schema
  with a tree was passed. An exclusion (or empty) projection needs it and fails without
  it; with it the source walks the paths of the schema, which is not represented. The
  identity columns are put in front unless \<open>_id\<close> is given and is not \<open>1\<close>.\<close>

definition conputeProjection :: "collection \<Rightarrow> jsval \<Rightarrow> bool \<Rightarrow> error + string" where
  "conputeProjection col projection schema_given =
     (if \<not> truthy projection then Inr ''*''
      else
        (case prj_scan (forin_entries projection) 0 [] of
           Inl e \<Rightarrow> Inl e
         | Inr (prjType, prjObj) \<Rightarrow>
             if prjType = - 1 \<or> prjType = 0 then
               (if \<not> schema_given then Inl MissingSchema else Inl NotModelled)
             else
               (case prj_render col prjObj [] of
                  Inl e \<Rightarrow> Inl e
                | Inr res \<Rightarrow>
                    (case (if nullish (js_get projection ''_id'') then Some True
                           else loose_eq_num (js_get projection ''_id'') 1) of
                       None \<Rightarrow> Inl NotModelled
                     | Some True \<Rightarrow>
                         Inr (join '', '' (map (\<lambda>k. computeDbProp col k @ '' AS '' @ k) (primaryKeyList col))
                              @ '', '' @ res)
                     | Some False \<Rightarrow> Inr res))))"

section \<open>The row marshaller\<close>

text \<open>\<^verbatim>\<open>Object.assign(row, src)\<close> and the spread \<^verbatim>\<open>{...src}\<close> copy the own enumerable
  properties of \<open>src\<close> in their order; for the values of the embedding these are the
  entries of \<open>forin_entries\<close>.\<close>

definition object_assign :: "props \<Rightarrow> jsval \<Rightarrow> props" where
  "object_assign row src = foldl (\<lambda>r kv. AList.update (fst kv) (snd kv) r) row (forin_entries src)"

text \<open>\<^verbatim>\<open>_setPK(row, obj)\<close>, with \<open>idv\<close> the value of \<^verbatim>\<open>obj._id\<close>: the composite key
  replaces the row by the spread of the identity, the simple key stores its string
  conversion under \<open>kvid\<close>.\<close>

definition setPK :: "collection \<Rightarrow> props \<Rightarrow> jsval \<Rightarrow> props" where
  "setPK col row idv =
     (if hasCompositeKeys col then object_assign [] idv
      else AList.update KVID (Str (to_str idv)) row)"

text \<open>\<^verbatim>\<open>_fixTypesBeforeInsert(obj)\<close>. The source rewrites the elements of arrays and the
  properties of objects in place and returns the same object; the embedding returns the
  rewritten value.\<close>

fun fixTypesBeforeInsert :: "jsval \<Rightarrow> jsval" where
  "fixTypesBeforeInsert (ObjectId h) = Str ((if OBJECTID_ENABLED then OBJECTID_PREFIX else []) @ h)"
| "fixTypesBeforeInsert (DateV ds dt) = Str ds"
| "fixTypesBeforeInsert (Arr xs) = Arr (map fixTypesBeforeInsert xs)"
| "fixTypesBeforeInsert (Obj fs) = Obj (map (\<lambda>(k, v). (k, fixTypesBeforeInsert v)) fs)"
| "fixTypesBeforeInsert v = v"

text \<open>\<^verbatim>\<open>_marshallObjectIntoRow(obj)\<close> for a document, a plain object with the properties
  \<open>fs\<close>: the key goes into the row, \<open>_id\<close> is deleted from the document, the rest is
  converted and assigned to the row.\<close>

definition marshallObjectIntoRow :: "collection \<Rightarrow> props \<Rightarrow> props" where
  "marshallObjectIntoRow col fs =
     object_assign (setPK col [] (get_prop fs ''_id''))
       (fixTypesBeforeInsert (Obj (AList.delete ''_id'' fs)))"

definition is_hex :: "char \<Rightarrow> bool" where
  "is_hex c = (c \<in> set ''0123456789abcdefABCDEF'')"

definition lower_hex :: "char \<Rightarrow> char" where
  "lower_hex c =
     (if c = CHR ''A'' then CHR ''a'' else if c = CHR ''B'' then CHR ''b''
      else if c = CHR ''C'' then CHR ''c'' else if c = CHR ''D'' then CHR ''d''
      else if c = CHR ''E'' then CHR ''e'' else if c = CHR ''F'' then CHR ''f'' else c)"

text \<open>\<^verbatim>\<open>new ObjectId(s)\<close> of the bson library on a string: 24 hexadecimal digits give
  the identifier (printed in lower case), anything else is refused. (Some versions of
  the library also take a string of 12 characters as raw bytes: not represented.)\<close>

definition new_ObjectId :: "string \<Rightarrow> error + jsval" where
  "new_ObjectId s =
     (if length s = 24 \<and> list_all is_hex s then Inr (ObjectId (map lower_hex s))
      else if length s = 12 then Inl NotModelled
      else Inl BSONError)"

text \<open>The results of a loop that stops at the first \<^verbatim>\<open>throw\<close>.\<close>

fun sequence_err :: "(error + 'a) list \<Rightarrow> error + 'a list" where
  "sequence_err [] = Inr []"
| "sequence_err (Inl e # rs) = Inl e"
| "sequence_err (Inr x # rs) = (case sequence_err rs of Inl e \<Rightarrow> Inl e | Inr xs \<Rightarrow> Inr (x # xs))"

text \<open>\<^verbatim>\<open>_fixTypesAfterRead(obj)\<close>, with \<open>OBJECTID_ENABLED\<close> as the module sets it. An object
  whose \<open>_id\<close> is a non-empty string gets that \<open>_id\<close> replaced by an object identifier
  and is returned at once; a non-empty string that starts with the prefix becomes an
  object identifier; arrays and other objects are walked. A date and an object
  identifier (which a row read from the store does not hold) have no enumerable
  property and come back as they are.\<close>

fun fixTypesAfterRead :: "jsval \<Rightarrow> error + jsval" where
  "fixTypesAfterRead (Obj fs) =
     (if \<not> OBJECTID_ENABLED \<and> truthy (get_prop fs ''_id'') \<and> is_string (get_prop fs ''_id'')
      then
        (case new_ObjectId (to_str (get_prop fs ''_id'')) of
           Inl e \<Rightarrow> Inl e
         | Inr oid \<Rightarrow> Inr (Obj (AList.update ''_id'' oid fs)))
      else
        (case sequence_err
                (map (\<lambda>(k, v). case fixTypesAfterRead v of Inl e \<Rightarrow> Inl e | Inr v' \<Rightarrow> Inr (k, v')) fs) of
           Inl e \<Rightarrow> Inl e
         | Inr fs' \<Rightarrow> Inr (Obj fs')))"
| "fixTypesAfterRead (Str s) =
     (if s = [] then Inr (Str s)
      else if prefix OBJECTID_PREFIX s then new_ObjectId (drop (length OBJECTID_PREFIX) s)
      else Inr (Str s))"
| "fixTypesAfterRead (Arr xs) =
     (case sequence_err (map fixTypesAfterRead xs) of
        Inl e \<Rightarrow> Inl e
      | Inr xs' \<Rightarrow> Inr (Arr xs'))"
| "fixTypesAfterRead v = Inr v"

text \<open>\<^verbatim>\<open>_unmarshalObjectFromRow(row)\<close>. The method is static and is called on the class,
  where \<^verbatim>\<open>this._hasCompositeKeys\<close> is \<^verbatim>\<open>undefined\<close> (the field belongs to the
  instances): whatever the key schema of the collection, the simple-key arm runs. It
  sets \<open>_id\<close> to \<^verbatim>\<open>row[KVID]\<close> and deletes \<open>kvid\<close> (the arm for \<open>OBJECTID_ENABLED\<close>,
  which the module sets to false, is not represented). A row that is not a plain object does
  not come from the store: \<^verbatim>\<open>null\<close> and \<^verbatim>\<open>undefined\<close> raise, the rest is not
  represented.\<close>

fun unmarshalObjectFromRow :: "jsval \<Rightarrow> error + jsval" where
  "unmarshalObjectFromRow (Obj fs) =
     (if OBJECTID_ENABLED then Inl NotModelled
      else Inr (Obj (AList.delete KVID (AList.update ''_id'' (get_prop fs KVID) fs))))"
| "unmarshalObjectFromRow Null = Inl TypeError"
| "unmarshalObjectFromRow Undefined = Inl TypeError"
| "unmarshalObjectFromRow v = Inl NotModelled"

text \<open>What the read paths apply to a row:
  \<^verbatim>\<open>_unmarshalObjectFromRow(_fixTypesAfterRead(r))\<close>.\<close>

definition readRow :: "jsval \<Rightarrow> error + jsval" where
  "readRow r = (case fixTypesAfterRead r of Inl e \<Rightarrow> Inl e | Inr r' \<Rightarrow> unmarshalObjectFromRow r')"

text \<open>A document written and read back.\<close>

definition roundtrip :: "collection \<Rightarrow> props \<Rightarrow> error + jsval" where
  "roundtrip col fs = readRow (Obj (marshallObjectIntoRow col fs))"

text \<open>The values on which neither conversion has anything to do: no date, no object
  identifier, no string with the identifier prefix, no object with a non-empty string
  under \<open>_id\<close>, at any depth.\<close>

fun plain :: "jsval \<Rightarrow> bool" where
  "plain (DateV ds dt) = False"
| "plain (ObjectId h) = False"
| "plain (Str s) = (\<not> prefix OBJECTID_PREFIX s)"
| "plain (Arr xs) = list_all plain xs"
| "plain (Obj fs) =
     (\<not> (truthy (get_prop fs ''_id'') \<and> is_string (get_prop fs ''_id''))
      \<and> list_all (\<lambda>(k, v). plain v) fs)"
| "plain v = True"

text \<open>The values that the write path can store and the read path hands back as stored: no
  object identifier, no string and no date whose text starts with the identifier prefix,
  no object whose \<open>_id\<close> is stored as a non-empty string, at any depth. Dates are
  allowed.\<close>

fun storable :: "jsval \<Rightarrow> bool" where
  "storable (ObjectId h) = False"
| "storable (DateV ds dt) = (\<not> prefix OBJECTID_PREFIX ds)"
| "storable (Str s) = (\<not> prefix OBJECTID_PREFIX s)"
| "storable (Arr xs) = list_all storable xs"
| "storable (Obj fs) =
     (\<not> (truthy (fixTypesBeforeInsert (get_prop fs ''_id''))
         \<and> is_string (fixTypesBeforeInsert (get_prop fs ''_id'')))
      \<and> list_all (\<lambda>(k, v). storable v) fs)"
| "storable v = True"

section \<open>The cursor\<close>

text \<open>
  The store as one cursor meets it. A prepared statement is its text and the variables
  set on it. \<^verbatim>\<open>client.prepare\<close> answers with a statement or fails;
  \<^verbatim>\<open>client.queryIterable\<close> answers with the batch source or fails. The cursor calls each
  at most once, so the two answers are fixed fields. The batch source is the list of
  what its successive \<^verbatim>\<open>next()\<close> calls give before it is exhausted: a result with rows,
  a result without rows, or a failure.
\<close>

record prepstmt =
  sql :: string
  bound :: props

datatype gen_event = Batch "jsval list" | NoRows | Fail error

datatype store_call = Prepare string | QueryIterable prepstmt | GenNext

record store =
  prepare_res :: "error + prepstmt"
  query_res :: "error + gen_event list option"

text \<open>What the cursor shares with the rest of the process: the prepared-statement cache
  of the database object (its capacity and expiry are not represented) and the calls
  made on the store so far.\<close>

record world =
  cache :: "(string \<times> prepstmt) list"
  calls :: "store_call list"

text \<open>The fields of \<^verbatim>\<open>OrcoosFindCursor\<close>. \<open>gen\<close> is \<open>None\<close> while \<^verbatim>\<open>_gen\<close> is
  \<^verbatim>\<open>undefined\<close>, and holds what is left of the batch source afterwards.\<close>

record cursor =
  documents :: "jsval list"
  isStarted :: bool
  isClosed :: bool
  gen :: "gen_event list option"
  statement :: string
  bindings :: bindings
  maxLimit :: nat

text \<open>The constructor: \<^verbatim>\<open>maxLimit = MAX_QUERY_RESULTS_LIMIT\<close> when the argument is left
  out.\<close>

definition new_cursor :: "string \<Rightarrow> bindings \<Rightarrow> nat option \<Rightarrow> cursor" where
  "new_cursor stmt b lim =
     \<lparr> documents = [], isStarted = False, isClosed = False, gen = None, statement = stmt,
       bindings = b,
       maxLimit = (case lim of None \<Rightarrow> MAX_QUERY_RESULTS_LIMIT | Some k \<Rightarrow> k) \<rparr>"

text \<open>\<^verbatim>\<open>close()\<close>.\<close>

definition close :: "cursor \<Rightarrow> cursor" where
  "close c = c\<lparr>isClosed := True\<rparr>"

text \<open>The end of the first-call block of \<^verbatim>\<open>fetchBatch\<close>: the variables are set on a copy
  of the statement when there are any, then \<^verbatim>\<open>queryIterable\<close> is called inside the
  \<^verbatim>\<open>try\<close>; its \<^verbatim>\<open>catch\<close> clears the cache and rethrows.\<close>

definition bind_and_query :: "store \<Rightarrow> world \<Rightarrow> cursor \<Rightarrow> prepstmt \<Rightarrow> (error + unit) \<times> world \<times> cursor" where
  "bind_and_query st w c p =
     (let p' = (case bindings c of
                  None \<Rightarrow> p
                | Some b \<Rightarrow>
                    if length b > 0
                    then p\<lparr>bound := foldl (\<lambda>r kv. AList.update (fst kv) (snd kv) r) (bound p) b\<rparr>
                    else p);
          w1 = w\<lparr>calls := calls w @ [QueryIterable p']\<rparr>
      in case query_res st of
           Inl e \<Rightarrow> (Inl e, w1\<lparr>cache := []\<rparr>, c)
         | Inr g \<Rightarrow> (Inr (), w1, c\<lparr>gen := g\<rparr>))"

text \<open>The first-call block: the flag is set, the statement is taken from the cache or
  prepared and cached.\<close>

definition start_query :: "store \<Rightarrow> world \<Rightarrow> cursor \<Rightarrow> (error + unit) \<times> world \<times> cursor" where
  "start_query st w c =
     (let c1 = c\<lparr>isStarted := True\<rparr> in
      case map_of (cache w) (statement c) of
        Some p \<Rightarrow> bind_and_query st w c1 p
      | None \<Rightarrow>
          (let w1 = w\<lparr>calls := calls w @ [Prepare (statement c)]\<rparr> in
           case prepare_res st of
             Inl e \<Rightarrow> (Inl e, w1, c1)
           | Inr p \<Rightarrow> bind_and_query st (w1\<lparr>cache := AList.update (statement c) p (cache w1)\<rparr>) c1 p))"

text \<open>The second half of \<^verbatim>\<open>fetchBatch\<close>: without a batch source the cursor closes;
  otherwise \<^verbatim>\<open>_gen.next()\<close> is awaited. An exhausted source and a result without rows
  close the cursor, rows replace the buffer after each went through \<open>readRow\<close>, a
  failure propagates (and leaves the source finished).\<close>

definition pull_batch :: "world \<Rightarrow> cursor \<Rightarrow> (error + unit) \<times> world \<times> cursor" where
  "pull_batch w c =
     (case gen c of
        None \<Rightarrow> (Inr (), w, close c)
      | Some es \<Rightarrow>
          (let w1 = w\<lparr>calls := calls w @ [GenNext]\<rparr> in
           case es of
             [] \<Rightarrow> (Inr (), w1, close c)
           | Batch rows # rest \<Rightarrow>
               (case sequence_err (map readRow rows) of
                  Inl e \<Rightarrow> (Inl e, w1, c\<lparr>gen := Some rest\<rparr>)
                | Inr docs \<Rightarrow> (Inr (), w1, c\<lparr>gen := Some rest, documents := docs\<rparr>))
           | NoRows # rest \<Rightarrow> (Inr (), w1, close (c\<lparr>gen := Some rest\<rparr>))
           | Fail e # rest \<Rightarrow> (Inl e, w1, c\<lparr>gen := Some []\<rparr>)))"

text \<open>\<^verbatim>\<open>fetchBatch()\<close>. Every operation returns its outcome together with the world and
  the cursor as it leaves them, also when it throws.\<close>

definition fetchBatch :: "store \<Rightarrow> world \<Rightarrow> cursor \<Rightarrow> (error + unit) \<times> world \<times> cursor" where
  "fetchBatch st w c =
     (if isClosed c then (Inr (), w, c)
      else if \<not> isStarted c then
        (case start_query st w c of
           (Inl e, w1, c1) \<Rightarrow> (Inl e, w1, c1)
         | (Inr u, w1, c1) \<Rightarrow> pull_batch w1 c1)
      else pull_batch w c)"

text \<open>How many more \<^verbatim>\<open>fetchBatch\<close> calls can leave the cursor open: the measure of the
  loops below.\<close>

definition pending :: "store \<Rightarrow> cursor \<Rightarrow> nat" where
  "pending st c =
     (if isClosed c then 0
      else if isStarted c then (case gen c of None \<Rightarrow> 1 | Some es \<Rightarrow> Suc (length es))
      else (case query_res st of Inr (Some es) \<Rightarrow> Suc (Suc (length es)) | _ \<Rightarrow> 2))"

lemma pull_batch_pending:
  "\<not> isClosed c \<Longrightarrow> isStarted c \<Longrightarrow> pull_batch w c = (Inr u, w', c') \<Longrightarrow>
   pending st c' < pending st c"
  by (auto simp: pull_batch_def pending_def close_def Let_def
        split: option.splits list.splits gen_event.splits sum.splits)

lemma start_query_gen:
  "start_query st w c = (Inr u, w1, c1) \<Longrightarrow>
   isStarted c1 \<and> isClosed c1 = isClosed c \<and> query_res st = Inr (gen c1)"
  by (auto simp: start_query_def bind_and_query_def Let_def split: option.splits sum.splits)

lemma fetchBatch_pending:
  assumes "\<not> isClosed c" and "fetchBatch st w c = (Inr u, w', c')"
  shows "pending st c' < pending st c"
proof (cases "isStarted c")
  case True
  with assms show ?thesis
    by (auto simp: fetchBatch_def dest: pull_batch_pending)
next
  case False
  with assms obtain u1 w1 c1 where
    s: "start_query st w c = (Inr u1, w1, c1)" and p: "pull_batch w1 c1 = (Inr u, w', c')"
    by (auto simp: fetchBatch_def split: prod.splits sum.splits)
  from start_query_gen [OF s] have c1: "isStarted c1" "\<not> isClosed c1" "query_res st = Inr (gen c1)"
    using assms(1) by auto
  from pull_batch_pending [OF c1(2) c1(1) p] have "pending st c' < pending st c1" .
  moreover have "pending st c1 < pending st c"
    using c1 False assms(1) by (auto simp: pending_def split: option.splits)
  ultimately show ?thesis by simp
qed

lemma fetchBatch_closed: "isClosed c \<Longrightarrow> fetchBatch st w c = (Inr (), w, c)"
  by (simp add: fetchBatch_def)

lemma fetchBatch_open_pending:
  assumes "fetchBatch st w c = (Inr u, w', c')" and "\<not> isClosed c'"
  shows "pending st c' < pending st c"
proof -
  have "\<not> isClosed c"
  proof
    assume "isClosed c"
    with assms show False by (simp add: fetchBatch_closed)
  qed
  from fetchBatch_pending [OF this assms(1)] show ?thesis .
qed

text \<open>The loop of \<^verbatim>\<open>toArray()\<close>, with \<open>array\<close> as accumulated so far. The test
  \<^verbatim>\<open>this._documents?.length >= 0\<close> holds of every buffer.\<close>

function toArray_loop :: "store \<Rightarrow> world \<Rightarrow> cursor \<Rightarrow> jsval list \<Rightarrow> (error + jsval list) \<times> world \<times> cursor" where
  "toArray_loop st w c array =
     (if length array + length (documents c) > maxLimit c
      then (Inl (ResultLimitExceeded (length array + length (documents c)) (maxLimit c)), w, c)
      else
        (case fetchBatch st w c of
           (Inl e, w', c') \<Rightarrow> (Inl e, w', c')
         | (Inr u, w', c') \<Rightarrow>
             if isClosed c' then (Inr (array @ documents c), w', c')
             else toArray_loop st w' c' (array @ documents c)))"
  by pat_completeness auto
termination
  apply (relation "measure (\<lambda>(st, w, c, array). pending st c)")
   apply simp
  apply (drule sym)
  apply (auto intro: fetchBatch_open_pending)
  done

declare toArray_loop.simps [simp del]

definition toArray :: "store \<Rightarrow> world \<Rightarrow> cursor \<Rightarrow> (error + jsval list) \<times> world \<times> cursor" where
  "toArray st w c = toArray_loop st w c []"

text \<open>\<^verbatim>\<open>this._documents?.shift()\<close>: the first document (or \<^verbatim>\<open>undefined\<close>) and the cursor
  without it.\<close>

definition shift :: "cursor \<Rightarrow> jsval \<times> cursor" where
  "shift c = (case documents c of [] \<Rightarrow> (Undefined, c) | d # ds \<Rightarrow> (d, c\<lparr>documents := ds\<rparr>))"

text \<open>\<^verbatim>\<open>doc != null\<close>: neither \<^verbatim>\<open>null\<close> nor \<^verbatim>\<open>undefined\<close>.\<close>

definition not_nullish :: "jsval \<Rightarrow> bool" where
  "not_nullish v = (v \<noteq> Null \<and> v \<noteq> Undefined)"

lemma shift_pending: "shift c = (d, c1) \<Longrightarrow> pending st c1 = pending st c"
  by (auto simp: shift_def pending_def split: list.splits)

lemma shift_closed: "shift c = (d, c1) \<Longrightarrow> isClosed c1 = isClosed c"
  by (auto simp: shift_def split: list.splits)

lemma shift_length: "shift c = (d, c1) \<Longrightarrow> documents c1 \<noteq> [] \<Longrightarrow> length (documents c1) < length (documents c)"
  by (auto simp: shift_def split: list.splits)

lemma next_step_decreases:
  assumes s: "(doc, c1) = shift c" and f: "fetchBatch st w c1 = (Inr u, w', c')"
    and ne: "documents c' \<noteq> []" and n: "\<not> pending st c' < pending st c"
  shows "pending st c' = pending st c \<and> length (documents c') < length (documents c)"
proof (cases "isClosed c1")
  case True
  with f have "c' = c1" by (simp add: fetchBatch_closed)
  with ne shift_length [OF s [symmetric]] shift_pending [OF s [symmetric], of st] show ?thesis
    by simp
next
  case False
  from fetchBatch_pending [OF False f] shift_pending [OF s [symmetric], of st] n show ?thesis
    by simp
qed

text \<open>\<^verbatim>\<open>next()\<close>: the \<^verbatim>\<open>do ... while\<close> loop, one equation per iteration.\<close>

function next_loop :: "store \<Rightarrow> world \<Rightarrow> cursor \<Rightarrow> (error + jsval) \<times> world \<times> cursor" where
  "next_loop st w c =
     (case shift c of
        (doc, c1) \<Rightarrow>
          if not_nullish doc then (Inr doc, w, c1)
          else
            (case fetchBatch st w c1 of
               (Inl e, w', c') \<Rightarrow> (Inl e, w', c')
             | (Inr u, w', c') \<Rightarrow>
                 if documents c' \<noteq> [] then next_loop st w' c' else (Inr Null, w', c')))"
  by pat_completeness auto
termination
  apply (relation "measures [\<lambda>(st, w, c). pending st c, \<lambda>(st, w, c). length (documents c)]")
   apply simp
  apply (drule sym)
  apply (drule sym)
  apply (drule sym)
  apply (drule sym)
  apply (drule sym)
  apply (auto dest: next_step_decreases)
  done

declare next_loop.simps [simp del]

text \<open>\<^verbatim>\<open>hasNext()\<close>: the second turn of its loop returns at once, so the body runs at most
  twice.\<close>

definition hasNext :: "store \<Rightarrow> world \<Rightarrow> cursor \<Rightarrow> (error + bool) \<times> world \<times> cursor" where
  "hasNext st w c =
     (if documents c \<noteq> [] then (Inr True, w, c)
      else
        (case fetchBatch st w c of
           (Inl e, w', c') \<Rightarrow> (Inl e, w', c')
         | (Inr u, w', c') \<Rightarrow> (Inr (documents c' \<noteq> []), w', c')))"

text \<open>\<^verbatim>\<open>tryNext()\<close>.\<close>

definition tryNext :: "store \<Rightarrow> world \<Rightarrow> cursor \<Rightarrow> (error + jsval) \<times> world \<times> cursor" where
  "tryNext st w c =
     (case shift c of
        (doc, c1) \<Rightarrow>
          if not_nullish doc then (Inr doc, w, c1)
          else
            (case fetchBatch st w c1 of
               (Inl e, w', c') \<Rightarrow> (Inl e, w', c')
             | (Inr u, w', c') \<Rightarrow>
                 (case shift c' of
                    (doc', c'') \<Rightarrow>
                      if not_nullish doc' then (Inr doc', w', c'') else (Inr Null, w', c''))))"

text \<open>
  \<^verbatim>\<open>fetchBatch\<close> is an asynchronous function: a call of it runs up to its first
  \<^verbatim>\<open>await\<close> when it is made and goes on from there when the awaited promise has
  settled, whatever happened to the cursor in between. A call that is not awaited is
  left behind as a task. The places where a call of \<^verbatim>\<open>fetchBatch\<close> can be suspended:
  \<^item> \<open>AwaitPrepare\<close>: at \<^verbatim>\<open>await client.prepare(...)\<close>, the call being made;
  \<^item> \<open>AwaitCopy p\<close>: at \<^verbatim>\<open>await prepStmt.copyStatement()\<close>, with \<open>p\<close> the statement;
  \<^item> \<open>AwaitQuery\<close>: at \<^verbatim>\<open>await client.queryIterable(...)\<close>, the call being made;
  \<^item> \<open>AwaitBatch ev\<close>: at \<^verbatim>\<open>await this._gen.next()\<close>, the call being made and \<open>ev\<close> what
    the batch source answers (\<open>None\<close> when it is exhausted);
  \<^item> \<open>Finished r\<close>: the call has returned or thrown.
\<close>

datatype fetch_task =
    AwaitPrepare
  | AwaitCopy prepstmt
  | AwaitQuery
  | AwaitBatch "gen_event option"
  | Finished "error + unit"

text \<open>The call of \<^verbatim>\<open>queryIterable\<close> on the statement.\<close>

definition query_call :: "world \<Rightarrow> cursor \<Rightarrow> prepstmt \<Rightarrow> fetch_task \<times> world \<times> cursor" where
  "query_call w c p = (AwaitQuery, w\<lparr>calls := calls w @ [QueryIterable p]\<rparr>, c)"

text \<open>With the statement in hand: when there are variables to set the copy is awaited,
  otherwise \<^verbatim>\<open>queryIterable\<close> is called.\<close>

definition statement_ready :: "world \<Rightarrow> cursor \<Rightarrow> prepstmt \<Rightarrow> fetch_task \<times> world \<times> cursor" where
  "statement_ready w c p =
     (case bindings c of
        None \<Rightarrow> query_call w c p
      | Some b \<Rightarrow> if length b > 0 then (AwaitCopy p, w, c) else query_call w c p)"

text \<open>The second half of \<^verbatim>\<open>fetchBatch\<close> up to its \<^verbatim>\<open>await\<close>: without a batch source the
  cursor closes and the call returns; otherwise \<^verbatim>\<open>_gen.next()\<close> is called, which takes
  the next answer from the source.\<close>

definition batch_call :: "world \<Rightarrow> cursor \<Rightarrow> fetch_task \<times> world \<times> cursor" where
  "batch_call w c =
     (case gen c of
        None \<Rightarrow> (Finished (Inr ()), w, close c)
      | Some es \<Rightarrow>
          (let w1 = w\<lparr>calls := calls w @ [GenNext]\<rparr> in
           case es of
             [] \<Rightarrow> (AwaitBatch None, w1, c)
           | ev # rest \<Rightarrow>
               (AwaitBatch (Some ev), w1,
                c\<lparr>gen := Some (case ev of Fail e \<Rightarrow> [] | _ \<Rightarrow> rest)\<rparr>)))"

text \<open>A call of \<^verbatim>\<open>fetchBatch\<close> up to its first \<^verbatim>\<open>await\<close>. The closed flag is tested
  here, on entry, and nowhere else.\<close>

definition fetchBatch_begin :: "world \<Rightarrow> cursor \<Rightarrow> fetch_task \<times> world \<times> cursor" where
  "fetchBatch_begin w c =
     (if isClosed c then (Finished (Inr ()), w, c)
      else if \<not> isStarted c then
        (let c1 = c\<lparr>isStarted := True\<rparr> in
         case map_of (cache w) (statement c) of
           Some p \<Rightarrow> statement_ready w c1 p
         | None \<Rightarrow> (AwaitPrepare, w\<lparr>calls := calls w @ [Prepare (statement c)]\<rparr>, c1))
      else batch_call w c)"

text \<open>A suspended call of \<^verbatim>\<open>fetchBatch\<close> going on to its next \<^verbatim>\<open>await\<close> or to its end,
  on the world and the cursor as they are by then.\<close>

definition fetchBatch_resume :: "store \<Rightarrow> fetch_task \<Rightarrow> world \<Rightarrow> cursor \<Rightarrow> fetch_task \<times> world \<times> cursor" where
  "fetchBatch_resume st t w c =
     (case t of
        AwaitPrepare \<Rightarrow>
          (case prepare_res st of
             Inl e \<Rightarrow> (Finished (Inl e), w, c)
           | Inr p \<Rightarrow> statement_ready (w\<lparr>cache := AList.update (statement c) p (cache w)\<rparr>) c p)
      | AwaitCopy p \<Rightarrow>
          query_call w c
            (case bindings c of
               None \<Rightarrow> p
             | Some b \<Rightarrow> p\<lparr>bound := foldl (\<lambda>r kv. AList.update (fst kv) (snd kv) r) (bound p) b\<rparr>)
      | AwaitQuery \<Rightarrow>
          (case query_res st of
             Inl e \<Rightarrow> (Finished (Inl e), w\<lparr>cache := []\<rparr>, c)
           | Inr g \<Rightarrow> batch_call w (c\<lparr>gen := g\<rparr>))
      | AwaitBatch ev \<Rightarrow>
          (case ev of
             None \<Rightarrow> (Finished (Inr ()), w, close c)
           | Some (Batch rows) \<Rightarrow>
               (case sequence_err (map readRow rows) of
                  Inl e \<Rightarrow> (Finished (Inl e), w, c)
                | Inr docs \<Rightarrow> (Finished (Inr ()), w, c\<lparr>documents := docs\<rparr>))
           | Some NoRows \<Rightarrow> (Finished (Inr ()), w, close c)
           | Some (Fail e) \<Rightarrow> (Finished (Inl e), w, c))
      | Finished r \<Rightarrow> (Finished r, w, c))"

text \<open>How many times a suspended call can still be resumed.\<close>

fun awaits_left :: "fetch_task \<Rightarrow> nat" where
  "awaits_left AwaitPrepare = 4"
| "awaits_left (AwaitCopy p) = 3"
| "awaits_left AwaitQuery = 2"
| "awaits_left (AwaitBatch ev) = 1"
| "awaits_left (Finished r) = 0"

lemma fetchBatch_resume_awaits:
  "awaits_left (fst (fetchBatch_resume st AwaitPrepare w c)) < 4"
  "awaits_left (fst (fetchBatch_resume st (AwaitCopy p) w c)) < 3"
  "awaits_left (fst (fetchBatch_resume st AwaitQuery w c)) < 2"
  "awaits_left (fst (fetchBatch_resume st (AwaitBatch ev) w c)) = 0"
  by (auto simp: fetchBatch_resume_def statement_ready_def query_call_def batch_call_def Let_def
        split: sum.splits option.splits list.splits gen_event.splits)

text \<open>A suspended call resumed until it ends, nothing else touching the cursor
  meanwhile: its outcome, and the world and the cursor as it leaves them.\<close>

function fetchBatch_finish :: "store \<Rightarrow> fetch_task \<Rightarrow> world \<Rightarrow> cursor \<Rightarrow> (error + unit) \<times> world \<times> cursor" where
  "fetchBatch_finish st t w c =
     (case t of
        Finished r \<Rightarrow> (r, w, c)
      | _ \<Rightarrow> (case fetchBatch_resume st t w c of (t', w', c') \<Rightarrow> fetchBatch_finish st t' w' c'))"
  by pat_completeness auto
termination
  apply (relation "measure (\<lambda>(st, t, w, c). awaits_left t)")
      apply simp
     apply (simp_all add: split_beta fetchBatch_resume_awaits)
  done

declare fetchBatch_finish.simps [simp del]

text \<open>The calls left behind without an \<^verbatim>\<open>await\<close>, each resumed until it ends, one after
  the other. What they return or throw reaches nobody.\<close>

fun settle :: "store \<Rightarrow> fetch_task list \<Rightarrow> world \<Rightarrow> cursor \<Rightarrow> world \<times> cursor" where
  "settle st [] w c = (w, c)"
| "settle st (t # ts) w c = (case fetchBatch_finish st t w c of (r, w', c') \<Rightarrow> settle st ts w' c')"

text \<open>The loop of the asynchronous iterator, for one pull: \<open>Inr (Some doc)\<close> is a
  document yielded, \<open>Inr None\<close> the end of the iteration. The \<^verbatim>\<open>finally\<close> block closes
  the cursor when the loop is left by \<^verbatim>\<open>return\<close> or by an exception.\<close>

definition iterator_loop :: "store \<Rightarrow> world \<Rightarrow> cursor \<Rightarrow> (error + jsval option) \<times> world \<times> cursor" where
  "iterator_loop st w c =
     (if isClosed c then (Inr None, w, c)
      else
        (case next_loop st w c of
           (Inl e, w', c') \<Rightarrow> (Inl e, w', if \<not> isClosed c' then close c' else c')
         | (Inr doc, w', c') \<Rightarrow>
             if doc = Null then (Inr None, w', if \<not> isClosed c' then close c' else c')
             else (Inr (Some doc), w', c')))"

text \<open>
  One pull on the asynchronous iterator: the outcome, the calls of \<^verbatim>\<open>fetchBatch\<close> it
  left behind, and the world and the cursor at the end of the pull. A closed cursor
  ends the iteration at once. On a cursor that is not started the source calls
  \<^verbatim>\<open>this.fetchBatch()\<close> without awaiting it, sets the started flag and enters the loop
  with that call suspended at its first \<^verbatim>\<open>await\<close>. The \<^verbatim>\<open>next()\<close> of the loop finds the
  buffer empty and calls \<^verbatim>\<open>fetchBatch\<close> itself; this second call finds the cursor
  started and \<^verbatim>\<open>_gen\<close> still \<^verbatim>\<open>undefined\<close>, so it closes the cursor and returns without
  an \<^verbatim>\<open>await\<close>. When \<^verbatim>\<open>next()\<close> goes on, one turn of the job queue later, the first call
  has been resumed once at most, which does not take it to the assignment of the buffer
  (that needs the answers of \<^verbatim>\<open>queryIterable\<close> and of \<^verbatim>\<open>_gen.next()\<close>): the buffer is
  empty and \<^verbatim>\<open>next()\<close> returns \<^verbatim>\<open>null\<close>. So the loop runs on the cursor as the first call
  left it at its first \<^verbatim>\<open>await\<close>, and that call is still to be resumed when the pull
  ends.

  A cursor that is not started has an empty buffer and no batch source (both fields are
  assigned by \<^verbatim>\<open>fetchBatch\<close> only, after it set the flag; \<open>started_or_fresh\<close> below). On
  another record the two calls would both await the store, and the outcome would depend
  on the order of the answers: \<open>NotModelled\<close>.
\<close>

definition iterator_next :: "store \<Rightarrow> world \<Rightarrow> cursor \<Rightarrow> (error + jsval option) \<times> fetch_task list \<times> world \<times> cursor" where
  "iterator_next st w c =
     (if isClosed c then (Inr None, [], w, c)
      else if \<not> isStarted c then
        (if documents c = [] \<and> gen c = None then
           (case fetchBatch_begin w c of
              (t, w1, c1) \<Rightarrow>
                (case iterator_loop st w1 (c1\<lparr>isStarted := True\<rparr>) of
                   (r, w', c') \<Rightarrow> (r, [t], w', c')))
         else (Inl NotModelled, [], w, c))
      else
        (case iterator_loop st w c of (r, w', c') \<Rightarrow> (r, [], w', c')))"

text \<open>The state in which every cursor is: started, or with an empty buffer and no
  batch source.\<close>

definition started_or_fresh :: "cursor \<Rightarrow> bool" where
  "started_or_fresh c = (isStarted c \<or> (documents c = [] \<and> gen c = None))"

text \<open>The operations of a cursor, and what a caller is left with after one of them and
  after a sequence of them (a caller that catches an error goes on with the same
  cursor). Each operation is run to its end before the next one starts, and so is the
  call that a pull on the iterator left behind.\<close>

datatype cursor_op = OpFetchBatch | OpNext | OpHasNext | OpTryNext | OpToArray | OpIterate | OpClose

fun run_op :: "store \<Rightarrow> cursor_op \<Rightarrow> world \<Rightarrow> cursor \<Rightarrow> world \<times> cursor" where
  "run_op st OpFetchBatch w c = snd (fetchBatch st w c)"
| "run_op st OpNext w c = snd (next_loop st w c)"
| "run_op st OpHasNext w c = snd (hasNext st w c)"
| "run_op st OpTryNext w c = snd (tryNext st w c)"
| "run_op st OpToArray w c = snd (toArray st w c)"
| "run_op st OpIterate w c = (case iterator_next st w c of (r, ts, w', c') \<Rightarrow> settle st ts w' c')"
| "run_op st OpClose w c = (w, close c)"

fun run_ops :: "store \<Rightarrow> cursor_op list \<Rightarrow> world \<Rightarrow> cursor \<Rightarrow> world \<times> cursor" where
  "run_ops st [] w c = (w, c)"
| "run_ops st (op # ops) w c = (case run_op st op w c of (w', c') \<Rightarrow> run_ops st ops w' c')"

section \<open>Shapes named by the specification\<close>

text \<open>The quoted dot-path of a field: every segment between dots becomes a quoted
  property step, a segment that is a canonical array index becomes an index step.\<close>

definition quoted_dot_path :: "string \<Rightarrow> string" where
  "quoted_dot_path prop =
     concat (map (\<lambda>seg. if isPositiveInteger seg then ''['' @ seg @ '']'' else ''.'' @ DQ @ seg @ DQ)
                 (split_dot prop))"

text \<open>The disjunction that \<^verbatim>\<open>$in\<close> is specified to yield for a field \<open>kv\<close>, the bound
  names of the non-null elements and one \<^verbatim>\<open>null\<close>: the comparison with the names, the
  array-contains check with the same names, and the branch for the absent field.\<close>

definition in_disjunction :: "string \<Rightarrow> string list \<Rightarrow> string" where
  "in_disjunction kv names =
     ''('' @ kv @ '' IN ('' @ join '','' names @ '')''
       @ '' OR EXISTS ('' @ kv @ ''[$element IN ('' @ join '','' names @ '')])''
       @ '' OR NOT EXISTS '' @ kv @ '')''"

section \<open>Stores used in the examples\<close>

definition demo_stmt :: string where
  "demo_stmt = ''SELECT * FROM t $t''"

text \<open>A store that prepares the statement and serves the given batches of rows.\<close>

definition batch_store :: "jsval list list \<Rightarrow> store" where
  "batch_store bs = \<lparr> prepare_res = Inr \<lparr> sql = demo_stmt, bound = [] \<rparr>,
                       query_res = Inr (Some (map Batch bs)) \<rparr>"

text \<open>A store whose batch source serves one batch and then fails.\<close>

definition failing_store :: store where
  "failing_store = \<lparr> prepare_res = Inr \<lparr> sql = demo_stmt, bound = [] \<rparr>,
       query_res = Inr (Some [Batch [Obj [(''kvid'', Str ''k1'')]], Fail (StoreError ''table changed'')]) \<rparr>"

section \<open>Results\<close>

subsection \<open>The identity filter\<close>

text \<open>
  Claim C1. A filter holding only an equality on \<open>_id\<close> should store exactly one binding
  on a simple key, and one per present key field on a composite key. \<open>computeWhere\<close>
  calls \<open>computeWherePk\<close> twice, and each call stores its bindings: on the simple key
  the filter \<open>{_id: 'abc'}\<close> leaves the two bindings \<open>$id\<close> and \<open>$id2\<close> and the
  statement names the second; on a composite key every present field is bound twice.
\<close>

theorem computeWhere_id_stores_two_bindings:
  "computeWhere simple_collection (Obj [(''_id'', Str ''abc'')]) (Some []) =
     Inr ('' WHERE ($t.kvid = $id2)'', Some [(''$id'', Str ''abc''), (''$id2'', Str ''abc'')]) \<and>
   computeWhere \<lparr> hasCompositeKeys = True, primaryKeyList = [''a'', ''b'', ''c''] \<rparr>
       (Obj [(''_id'', Obj [(''a'', Str ''x''), (''c'', Num 3)])]) (Some []) =
     Inr ('' WHERE ($t.a = $id_a2 AND $t.c = $id_c2)'',
          Some [(''$id_a'', Str ''x''), (''$id_c'', Num 3), (''$id_a2'', Str ''x''), (''$id_c2'', Num 3)])"
  by code_simp

theorem computeWhere_id_stores_two_bindings_witness:
  "\<exists>w b. computeWhere simple_collection (Obj [(''_id'', Str ''abc'')]) (Some []) = Inr (w, Some b)
      \<and> map fst b = [''$id'', ''$id2'']"
  using computeWhere_id_stores_two_bindings by simp

subsection \<open>Bind-variable names\<close>

text \<open>
  Claim C2. Two calls of \<open>storeBinding\<close> with the same base name and different values
  should return two different names, each keeping its value. The test for a free name is
  the truthiness of the entry (\<^verbatim>\<open>!bindings[name]\<close>), so a name holding \<open>0\<close> counts as
  free: storing \<open>0\<close> and then \<open>5\<close> under the base name \<open>a\<close> returns \<open>$a\<close> twice, and
  the second call replaces the \<open>0\<close>.
\<close>

theorem storeBinding_falsy_value_overwritten:
  "storeBinding (Some []) ''a'' (Num 0) = Inr (''$a'', Some [(''$a'', Num 0)]) \<and>
   storeBinding (Some [(''$a'', Num 0)]) ''a'' (Num 5) = Inr (''$a'', Some [(''$a'', Num 5)])"
  by (simp add: storeBinding_def get_prop_def Let_def)

text \<open>What does hold of \<open>storeBinding\<close>. A call that returns a name had found the entry of
  that name falsy and stores the value there. So when the first of two values is truthy,
  the two names differ and both values stay; and when the base name and every suffix
  from \<open>2\<close> to \<open>999\<close> hold truthy values, the call fails.\<close>

lemma storeBinding_loop_result:
  "storeBinding_loop b name v start = Inr (n, b') \<Longrightarrow>
   \<not> truthy (get_prop b n) \<and> b' = Some (AList.update n v b)"
proof (induction b name v start rule: storeBinding_loop.induct)
  case (1 b name v i)
  show ?case
  proof (cases "i < MAX_BINDING_NAME")
    case False
    with "1.prems" show ?thesis by (simp add: storeBinding_loop.simps [of b name v i])
  next
    case lt: True
    show ?thesis
    proof (cases "truthy (get_prop b (name @ show_nat i))")
      case True
      with lt "1.prems" have "storeBinding_loop b name v (Suc i) = Inr (n, b')"
        by (simp add: storeBinding_loop.simps [of b name v i])
      from "1.IH" [OF lt True this] show ?thesis .
    next
      case False
      with lt "1.prems" show ?thesis
        by (auto simp: storeBinding_loop.simps [of b name v i])
    qed
  qed
qed

lemma storeBinding_result:
  "storeBinding (Some b) name v = Inr (n, b') \<Longrightarrow>
   \<not> truthy (get_prop b n) \<and> b' = Some (AList.update n v b)"
  by (auto simp: storeBinding_def Let_def split: if_splits dest: storeBinding_loop_result)

lemma get_prop_update:
  "get_prop (AList.update k v al) k' = (if k' = k then v else get_prop al k')"
  by (simp add: get_prop_def update_conv')

lemma storeBinding_truthy_distinct:
  assumes "truthy v1"
    and "storeBinding (Some b) name v1 = Inr (n1, Some b1)"
    and "storeBinding (Some b1) name v2 = Inr (n2, Some b2)"
  shows "n1 \<noteq> n2 \<and> get_prop b2 n1 = v1 \<and> get_prop b2 n2 = v2"
proof -
  from storeBinding_result [OF assms(2)] have b1: "b1 = AList.update n1 v1 b" by simp
  from storeBinding_result [OF assms(3)]
  have f: "\<not> truthy (get_prop b1 n2)" and b2: "b2 = AList.update n2 v2 b1" by simp_all
  from f b1 assms(1) have "n1 \<noteq> n2" by (auto simp: get_prop_update)
  then show ?thesis using b1 b2 by (simp add: get_prop_update)
qed

lemma storeBinding_loop_exhausted:
  "(\<And>i. start \<le> i \<Longrightarrow> i < MAX_BINDING_NAME \<Longrightarrow> truthy (get_prop b (name @ show_nat i))) \<Longrightarrow>
   storeBinding_loop b name v start = Inl (TooManyBindings name)"
proof (induction b name v start rule: storeBinding_loop.induct)
  case (1 b name v i)
  show ?case
  proof (cases "i < MAX_BINDING_NAME")
    case False
    then show ?thesis by (simp add: storeBinding_loop.simps [of b name v i])
  next
    case True
    from "1.prems" [of i] True have t: "truthy (get_prop b (name @ show_nat i))" by simp
    have "storeBinding_loop b name v (Suc i) = Inl (TooManyBindings name)"
      using "1.prems" by (intro "1.IH" [OF True t]) simp_all
    with True t show ?thesis by (simp add: storeBinding_loop.simps [of b name v i])
  qed
qed

lemma storeBinding_exhausted:
  assumes "truthy (get_prop b (''$'' @ replace_first_dot name))"
    and "\<And>i. 2 \<le> i \<Longrightarrow> i < MAX_BINDING_NAME \<Longrightarrow>
            truthy (get_prop b ((''$'' @ replace_first_dot name) @ show_nat i))"
  shows "storeBinding (Some b) name v = Inl (TooManyBindings (''$'' @ replace_first_dot name))"
  using assms(1) storeBinding_loop_exhausted [of 2 b "''$'' @ replace_first_dot name" v, OF assms(2)]
  by (simp add: storeBinding_def Let_def)

lemma digit_char_inj: "d < 10 \<Longrightarrow> e < 10 \<Longrightarrow> digit_char d = digit_char e \<Longrightarrow> d = e"
proof -
  assume d: "d < 10" and e: "e < 10" and eq: "digit_char d = digit_char e"
  have dist: "distinct ''0123456789''" by simp
  have "length ''0123456789'' = 10" by simp
  with d e eq dist show ?thesis
    unfolding digit_char_def by (metis nth_eq_iff_index_eq)
qed

lemma show_nat_nonempty: "show_nat n \<noteq> []"
  by (subst show_nat.simps) simp

lemma show_nat_inj: "show_nat n = show_nat m \<Longrightarrow> n = m"
proof (induction n arbitrary: m rule: show_nat.induct)
  case (1 n)
  show ?case
  proof (cases "n < 10")
    case n: True
    show ?thesis
    proof (cases "m < 10")
      case True
      with n "1.prems" show ?thesis
        by (simp add: show_nat.simps [of n] show_nat.simps [of m] digit_char_inj)
    next
      case False
      with n "1.prems" show ?thesis
        using show_nat_nonempty [of "m div 10"]
        by (simp add: show_nat.simps [of n] show_nat.simps [of m])
    qed
  next
    case n: False
    show ?thesis
    proof (cases "m < 10")
      case True
      with n "1.prems" show ?thesis
        using show_nat_nonempty [of "n div 10"]
        by (simp add: show_nat.simps [of n] show_nat.simps [of m])
    next
      case False
      with n "1.prems" have a: "show_nat (n div 10) = show_nat (m div 10)"
        and b: "digit_char (n mod 10) = digit_char (m mod 10)"
        by (simp_all add: show_nat.simps [of n] show_nat.simps [of m])
      from "1.IH" [OF n a] have "n div 10 = m div 10" .
      moreover from b have "n mod 10 = m mod 10" by (simp add: digit_char_inj)
      ultimately show ?thesis by (metis div_mult_mod_eq)
    qed
  qed
qed

lemma storeBinding_loop_succeeds:
  "start \<le> i \<Longrightarrow> i < MAX_BINDING_NAME \<Longrightarrow> \<not> truthy (get_prop b (name @ show_nat i)) \<Longrightarrow>
   \<exists>j. storeBinding_loop b name v start =
         Inr (name @ show_nat j, Some (AList.update (name @ show_nat j) v b))"
proof (induction b name v start rule: storeBinding_loop.induct)
  case (1 b name v start)
  show ?case
  proof (cases "truthy (get_prop b (name @ show_nat start))")
    case True
    with "1.prems" have "start \<noteq> i" by auto
    with "1.prems" have lt: "Suc start \<le> i" by simp
    from "1.prems" have s: "start < MAX_BINDING_NAME" by simp
    from "1.IH" [OF s True lt "1.prems"(2,3)] True s show ?thesis
      by (subst storeBinding_loop.simps) simp
  next
    case False
    from "1.prems" have s: "start < MAX_BINDING_NAME" by simp
    with False show ?thesis
      by (subst storeBinding_loop.simps) auto
  qed
qed

lemma truthy_in_keys: "truthy (get_prop b k) \<Longrightarrow> k \<in> fst ` set b"
  by (auto simp: get_prop_def split: option.splits dest: map_of_SomeD intro: rev_image_eqI)

lemma free_suffix_exists:
  assumes "length b < 998"
  shows "\<exists>i. 2 \<le> i \<and> i < MAX_BINDING_NAME \<and> \<not> truthy (get_prop b (name @ show_nat i))"
proof (rule ccontr)
  assume "\<not> ?thesis"
  then have all: "\<And>i. 2 \<le> i \<Longrightarrow> i < 1000 \<Longrightarrow> name @ show_nat i \<in> fst ` set b"
    by (auto simp: MAX_BINDING_NAME_def intro: truthy_in_keys)
  have inj: "inj_on (\<lambda>i. name @ show_nat i) {2..<1000}"
    by (auto simp: inj_on_def dest: show_nat_inj)
  have "(\<lambda>i. name @ show_nat i) ` {2..<1000} \<subseteq> fst ` set b"
    using all by auto
  then have "card ((\<lambda>i. name @ show_nat i) ` {2..<1000}) \<le> card (fst ` set b)"
    by (intro card_mono) auto
  moreover have "card ((\<lambda>i. name @ show_nat i) ` {2..<1000}) = 998"
    using inj by (simp add: card_image)
  moreover have "card (fst ` set b) \<le> length b"
    by (metis card_image_le card_length le_trans List.finite_set)
  ultimately show False using assms by simp
qed

lemma keys_update: "fst ` set (AList.update k v al) = insert k (fst ` set al)"
  by (simp add: dom_update)

lemma length_update_le: "length (AList.update k v al) \<le> Suc (length al)"
  by (induction al) auto

lemma storeBinding_succeeds:
  assumes "length b < 998"
  shows "\<exists>n b'. storeBinding (Some b) name v = Inr (n, Some b') \<and> n \<in> fst ` set b'
           \<and> fst ` set b \<subseteq> fst ` set b' \<and> length b' \<le> Suc (length b)"
proof (cases "truthy (get_prop b (''$'' @ replace_first_dot name))")
  case False
  then show ?thesis
    by (auto simp: storeBinding_def Let_def keys_update length_update_le)
next
  case True
  from free_suffix_exists [OF assms] obtain i where
    i: "2 \<le> i" "i < MAX_BINDING_NAME" "\<not> truthy (get_prop b ((''$'' @ replace_first_dot name) @ show_nat i))"
    by blast
  from storeBinding_loop_succeeds [OF i] obtain j where
    "storeBinding_loop b (''$'' @ replace_first_dot name) v 2 =
       Inr ((''$'' @ replace_first_dot name) @ show_nat j,
            Some (AList.update ((''$'' @ replace_first_dot name) @ show_nat j) v b))"
    by blast
  with True show ?thesis
    by (auto simp: storeBinding_def Let_def keys_update length_update_le)
qed

subsection \<open>Membership filters\<close>

lemma join_snoc: "join sep (xs @ [x]) = (if xs = [] then x else join sep xs @ sep @ x)"
  by (induction sep xs rule: join.induct) auto

lemma join_Cons: "join sep (x # xs) = (if xs = [] then x else x @ sep @ join sep xs)"
  by (cases xs) auto

lemma in_loop_shape:
  assumes "length b + length xs < 998"
    and "i = cnt + (if cn then 1 else 0)"
    and "count_list xs Null \<le> (if cn then 0 else 1)"
  shows "\<exists>names b'. in_loop prop xs i cn inRes cnt (Some b) =
            Inr (inRes @ (if cnt > 0 \<and> names \<noteq> [] then '','' else []) @ join '','' names,
                 cn \<or> Null \<in> set xs, cnt + length names, Some b')
          \<and> length names = length (filter (\<lambda>x. x \<noteq> Null) xs)
          \<and> set names \<subseteq> fst ` set b' \<and> fst ` set b \<subseteq> fst ` set b'
          \<and> length b' \<le> length b + length xs
          \<and> (list_all truthy (filter (\<lambda>x. x \<noteq> Null) xs) \<longrightarrow>
               distinct names
               \<and> map (get_prop b') names = filter (\<lambda>x. x \<noteq> Null) xs
               \<and> (\<forall>k. truthy (get_prop b k) \<longrightarrow> k \<notin> set names \<and> get_prop b' k = get_prop b k))"
  using assms
proof (induction xs arbitrary: i cn inRes cnt b)
  case Nil
  then show ?case by simp
next
  case (Cons x xs)
  show ?case
  proof (cases "x = Null")
    case True
    with Cons.prems have cn: "\<not> cn" and cnt: "count_list xs Null = 0"
      by (auto split: if_splits)
    have "\<exists>names b'. in_loop prop xs (Suc i) True inRes cnt (Some b) =
            Inr (inRes @ (if cnt > 0 \<and> names \<noteq> [] then '','' else []) @ join '','' names,
                 True \<or> Null \<in> set xs, cnt + length names, Some b')
          \<and> length names = length (filter (\<lambda>x. x \<noteq> Null) xs)
          \<and> set names \<subseteq> fst ` set b' \<and> fst ` set b \<subseteq> fst ` set b'
          \<and> length b' \<le> length b + length xs
          \<and> (list_all truthy (filter (\<lambda>x. x \<noteq> Null) xs) \<longrightarrow>
               distinct names
               \<and> map (get_prop b') names = filter (\<lambda>x. x \<noteq> Null) xs
               \<and> (\<forall>k. truthy (get_prop b k) \<longrightarrow> k \<notin> set names \<and> get_prop b' k = get_prop b k))"
      using Cons.prems cn cnt by (intro Cons.IH) auto
    then obtain names b' where
      r: "in_loop prop xs (Suc i) True inRes cnt (Some b) =
            Inr (inRes @ (if cnt > 0 \<and> names \<noteq> [] then '','' else []) @ join '','' names,
                 True, cnt + length names, Some b')"
      and l: "length names = length (filter (\<lambda>x. x \<noteq> Null) xs)"
      and s1: "set names \<subseteq> fst ` set b'" and s2: "fst ` set b \<subseteq> fst ` set b'"
      and l2: "length b' \<le> length b + length xs"
      and t: "list_all truthy (filter (\<lambda>x. x \<noteq> Null) xs) \<longrightarrow>
               distinct names
               \<and> map (get_prop b') names = filter (\<lambda>x. x \<noteq> Null) xs
               \<and> (\<forall>k. truthy (get_prop b k) \<longrightarrow> k \<notin> set names \<and> get_prop b' k = get_prop b k)"
      by auto
    show ?thesis
    proof (intro exI [of _ names] exI [of _ b'] conjI)
      show "in_loop prop (x # xs) i cn inRes cnt (Some b) =
        Inr (inRes @ (if 0 < cnt \<and> names \<noteq> [] then '','' else []) @ join '','' names,
             cn \<or> Null \<in> set (x # xs), cnt + length names, Some b')"
        using True r by simp
      show "length names = length (filter (\<lambda>x. x \<noteq> Null) (x # xs))"
        using True l by simp
      show "set names \<subseteq> fst ` set b'" by (rule s1)
      show "fst ` set b \<subseteq> fst ` set b'" by (rule s2)
      show "length b' \<le> length b + length (x # xs)" using l2 by simp
      show "list_all truthy (filter (\<lambda>x. x \<noteq> Null) (x # xs)) \<longrightarrow>
               distinct names
               \<and> map (get_prop b') names = filter (\<lambda>x. x \<noteq> Null) (x # xs)
               \<and> (\<forall>k. truthy (get_prop b k) \<longrightarrow> k \<notin> set names \<and> get_prop b' k = get_prop b k)"
        using True t by simp
    qed
  next
    case False
    from Cons.prems have "length b < 998" by simp
    from storeBinding_succeeds [OF this, of "prop" x] obtain n b1 where
      sb: "storeBinding (Some b) prop x = Inr (n, Some b1)" and n: "n \<in> fst ` set b1"
      and sub: "fst ` set b \<subseteq> fst ` set b1" and len: "length b1 \<le> Suc (length b)"
      by blast
    from storeBinding_result [OF sb]
    have free: "\<not> truthy (get_prop b n)" and b1: "b1 = AList.update n x b" by simp_all
    let ?inRes = "(if i > (if cn then 1 else 0) then inRes @ '','' else inRes) @ n"
    have "\<exists>names b'. in_loop prop xs (Suc i) cn ?inRes (Suc cnt) (Some b1) =
            Inr (?inRes @ (if Suc cnt > 0 \<and> names \<noteq> [] then '','' else []) @ join '','' names,
                 cn \<or> Null \<in> set xs, Suc cnt + length names, Some b')
          \<and> length names = length (filter (\<lambda>x. x \<noteq> Null) xs)
          \<and> set names \<subseteq> fst ` set b' \<and> fst ` set b1 \<subseteq> fst ` set b'
          \<and> length b' \<le> length b1 + length xs
          \<and> (list_all truthy (filter (\<lambda>x. x \<noteq> Null) xs) \<longrightarrow>
               distinct names
               \<and> map (get_prop b') names = filter (\<lambda>x. x \<noteq> Null) xs
               \<and> (\<forall>k. truthy (get_prop b1 k) \<longrightarrow> k \<notin> set names \<and> get_prop b' k = get_prop b1 k))"
      using Cons.prems False len by (intro Cons.IH) (auto split: if_splits)
    then obtain names b' where
      r: "in_loop prop xs (Suc i) cn ?inRes (Suc cnt) (Some b1) =
            Inr (?inRes @ (if names \<noteq> [] then '','' else []) @ join '','' names,
                 cn \<or> Null \<in> set xs, Suc cnt + length names, Some b')"
      and l: "length names = length (filter (\<lambda>x. x \<noteq> Null) xs)"
      and s1: "set names \<subseteq> fst ` set b'" and s2: "fst ` set b1 \<subseteq> fst ` set b'"
      and l2: "length b' \<le> length b1 + length xs"
      and t: "list_all truthy (filter (\<lambda>x. x \<noteq> Null) xs) \<longrightarrow>
               distinct names
               \<and> map (get_prop b') names = filter (\<lambda>x. x \<noteq> Null) xs
               \<and> (\<forall>k. truthy (get_prop b1 k) \<longrightarrow> k \<notin> set names \<and> get_prop b' k = get_prop b1 k)"
      by auto
    have i: "(i > (if cn then 1 else 0)) = (cnt > 0)"
      using Cons.prems(2) by auto
    show ?thesis
    proof (intro exI [of _ "n # names"] exI [of _ b'] conjI impI)
      show "in_loop prop (x # xs) i cn inRes cnt (Some b) =
        Inr (inRes @ (if 0 < cnt \<and> n # names \<noteq> [] then '','' else []) @ join '','' (n # names),
             cn \<or> Null \<in> set (x # xs), cnt + length (n # names), Some b')"
        using False sb r i by (auto simp: join_Cons)
      show "length (n # names) = length (filter (\<lambda>x. x \<noteq> Null) (x # xs))"
        using False l by simp
      show "set (n # names) \<subseteq> fst ` set b'" using n s1 s2 by auto
      show "fst ` set b \<subseteq> fst ` set b'" using sub s2 by auto
      show "length b' \<le> length b + length (x # xs)" using l2 len by simp
    next
      assume a: "list_all truthy (filter (\<lambda>x. x \<noteq> Null) (x # xs))"
      with False have x: "truthy x" and rest: "list_all truthy (filter (\<lambda>x. x \<noteq> Null) xs)"
        by simp_all
      from t rest have d: "distinct names"
        and m: "map (get_prop b') names = filter (\<lambda>x. x \<noteq> Null) xs"
        and k: "\<And>k. truthy (get_prop b1 k) \<Longrightarrow> k \<notin> set names \<and> get_prop b' k = get_prop b1 k"
        by simp_all
      from b1 have gn: "get_prop b1 n = x" by (simp add: get_prop_update)
      with x k [of n] have nn: "n \<notin> set names" and bn: "get_prop b' n = x" by simp_all
      show "distinct (n # names)" using d nn by simp
      show "map (get_prop b') (n # names) = filter (\<lambda>x. x \<noteq> Null) (x # xs)"
        using False m bn by simp
      show "\<forall>k. truthy (get_prop b k) \<longrightarrow> k \<notin> set (n # names) \<and> get_prop b' k = get_prop b k"
      proof (intro allI impI)
        fix j
        assume tj: "truthy (get_prop b j)"
        with free have jn: "j \<noteq> n" by auto
        with b1 have "get_prop b1 j = get_prop b j" by (simp add: get_prop_update)
        with tj k [of j] jn show "j \<notin> set (n # names) \<and> get_prop b' j = get_prop b j" by simp
      qed
    qed
  qed
qed

lemma in_loop_all_null:
  "filter (\<lambda>x. x \<noteq> Null) xs = [] \<Longrightarrow>
   in_loop prop xs i cn inRes cnt b = Inr (inRes, cn \<or> xs \<noteq> [], cnt, b)"
  by (induction xs arbitrary: i cn) (auto split: if_splits)

lemma single_in_filter:
  assumes "\<not> prefix ''$'' prop"
  shows "computeCompExp col (Obj [(prop, Obj [(''$in'', Arr xs)])]) b =
         wrap_res (case compExp_op col prop (Obj [(''$in'', Arr xs)]) ''$in'' (Arr xs) b of
                     Inl e \<Rightarrow> Inl e | Inr (t, b') \<Rightarrow> Inr (t, b'))"
  using assms by (simp add: compExp_field_def split: sum.splits)


text \<open>
  Claim C5. A \<^verbatim>\<open>$in\<close> whose array holds \<^verbatim>\<open>null\<close> and \<open>N\<close> other values should compile to
  a disjunction with \<open>N\<close> bound literals and one \<^verbatim>\<open>NOT EXISTS\<close> branch. Each value is
  bound by \<open>storeBinding\<close>, which takes a name for free when its entry is falsy: with the
  values \<open>0\<close> and \<open>5\<close> under the field \<open>a\<close>, both are given the name \<open>$a\<close>, the \<open>5\<close>
  replaces the \<open>0\<close>, and the predicate compares with \<open>$a\<close> twice. Two names stand in the
  text and one literal is bound.
\<close>

theorem in_filter_falsy_value_unbound:
  "computeCompExp simple_collection (Obj [(''a'', Obj [(''$in'', Arr [Null, Num 0, Num 5])])]) (Some []) =
     Inr (''('' @ in_disjunction (computeDbProp simple_collection ''a'') [''$a'', ''$a''] @ '')'',
          Some [(''$a'', Num 5)])"
  by code_simp

text \<open>
  What does hold of the claim. For a field that is not an operator, bindings with room
  left (fewer than 998 entries after the array is counted in) and a \<^verbatim>\<open>$in\<close> array \<open>xs\<close>:
  \<^item> when \<open>xs\<close> holds exactly one \<^verbatim>\<open>null\<close> and \<open>N \<ge> 1\<close> other values, the compiled
    predicate is the disjunction \<open>in_disjunction\<close> over \<open>N\<close> names: the comparison and the
    array-contains check over the \<open>N\<close> names, and one \<^verbatim>\<open>NOT EXISTS\<close> branch. When the
    \<open>N\<close> values are all truthy, the names are distinct, the resulting bindings give to
    each name its value, in the order of the array, and every truthy entry that the
    bindings had is kept;
  \<^item> when \<open>xs\<close> holds no value other than \<^verbatim>\<open>null\<close>, no comparison is compiled and no
    binding is stored: the text is empty for the empty array, and only the
    \<^verbatim>\<open>NOT EXISTS\<close> branch otherwise.
\<close>

lemma in_filter_null_and_values:
  assumes "\<not> prefix ''$'' prop" and "length b0 + length xs < 998"
  shows "(count_list xs Null = 1 \<and> filter (\<lambda>x. x \<noteq> Null) xs \<noteq> [] \<longrightarrow>
            (\<exists>names b'.
               computeCompExp col (Obj [(prop, Obj [(''$in'', Arr xs)])]) (Some b0) =
                 Inr (''('' @ in_disjunction (computeDbProp col prop) names @ '')'', Some b')
               \<and> length names = length (filter (\<lambda>x. x \<noteq> Null) xs)
               \<and> set names \<subseteq> fst ` set b'
               \<and> (list_all truthy (filter (\<lambda>x. x \<noteq> Null) xs) \<longrightarrow>
                    distinct names
                    \<and> map (get_prop b') names = filter (\<lambda>x. x \<noteq> Null) xs
                    \<and> (\<forall>k. truthy (get_prop b0 k) \<longrightarrow>
                           k \<notin> set names \<and> get_prop b' k = get_prop b0 k))))
       \<and> (filter (\<lambda>x. x \<noteq> Null) xs = [] \<longrightarrow>
            computeCompExp col (Obj [(prop, Obj [(''$in'', Arr xs)])]) (Some b0) =
              Inr (if xs = [] then [] else ''( OR NOT EXISTS '' @ computeDbProp col prop @ ''))'',
                   Some b0))"
proof (intro conjI impI)
  assume a: "count_list xs Null = 1 \<and> filter (\<lambda>x. x \<noteq> Null) xs \<noteq> []"
  then have ne: "xs \<noteq> []" by auto
  from a have nul: "Null \<in> set xs"
    by (metis count_list_0_iff zero_neq_one)
  from in_loop_shape [of b0 xs 0 0 False "prop" "'' IN (''"] assms(2) a
  obtain names b' where
    r: "in_loop prop xs 0 False '' IN ('' 0 (Some b0) =
          Inr ('' IN ('' @ join '','' names, Null \<in> set xs, length names, Some b')"
    and l: "length names = length (filter (\<lambda>x. x \<noteq> Null) xs)"
    and s: "set names \<subseteq> fst ` set b'"
    and t: "list_all truthy (filter (\<lambda>x. x \<noteq> Null) xs) \<longrightarrow>
              distinct names
              \<and> map (get_prop b') names = filter (\<lambda>x. x \<noteq> Null) xs
              \<and> (\<forall>k. truthy (get_prop b0 k) \<longrightarrow> k \<notin> set names \<and> get_prop b' k = get_prop b0 k)"
    by auto
  from a l have nn: "names \<noteq> []" by auto
  show "\<exists>names b'.
       computeCompExp col (Obj [(prop, Obj [(''$in'', Arr xs)])]) (Some b0) =
         Inr (''('' @ in_disjunction (computeDbProp col prop) names @ '')'', Some b')
       \<and> length names = length (filter (\<lambda>x. x \<noteq> Null) xs)
       \<and> set names \<subseteq> fst ` set b'
       \<and> (list_all truthy (filter (\<lambda>x. x \<noteq> Null) xs) \<longrightarrow>
            distinct names
            \<and> map (get_prop b') names = filter (\<lambda>x. x \<noteq> Null) xs
            \<and> (\<forall>k. truthy (get_prop b0 k) \<longrightarrow> k \<notin> set names \<and> get_prop b' k = get_prop b0 k))"
  proof (intro exI [of _ names] exI [of _ b'] conjI)
    show "computeCompExp col (Obj [(prop, Obj [(''$in'', Arr xs)])]) (Some b0) =
         Inr (''('' @ in_disjunction (computeDbProp col prop) names @ '')'', Some b')"
      unfolding single_in_filter [OF assms(1)] using ne nul nn r
      by (simp add: compExp_op_def comparison_operators_def
            wrap_res_def in_disjunction_def Let_def)
    show "length names = length (filter (\<lambda>x. x \<noteq> Null) xs)" by (rule l)
    show "set names \<subseteq> fst ` set b'" by (rule s)
    show "list_all truthy (filter (\<lambda>x. x \<noteq> Null) xs) \<longrightarrow>
            distinct names
            \<and> map (get_prop b') names = filter (\<lambda>x. x \<noteq> Null) xs
            \<and> (\<forall>k. truthy (get_prop b0 k) \<longrightarrow> k \<notin> set names \<and> get_prop b' k = get_prop b0 k)"
      by (rule t)
  qed
next
  assume a: "filter (\<lambda>x. x \<noteq> Null) xs = []"
  show "computeCompExp col (Obj [(prop, Obj [(''$in'', Arr xs)])]) (Some b0) =
          Inr (if xs = [] then [] else ''( OR NOT EXISTS '' @ computeDbProp col prop @ ''))'', Some b0)"
    unfolding single_in_filter [OF assms(1)]
    by (simp add: compExp_op_def comparison_operators_def
          wrap_res_def Let_def in_loop_all_null [OF a])
qed

text \<open>With truthy values the names differ and each literal is bound.\<close>

lemma in_filter_truthy_values:
  "computeCompExp simple_collection (Obj [(''a'', Obj [(''$in'', Arr [Null, Num 1, Num 2])])]) (Some []) =
     Inr (''('' @ in_disjunction (computeDbProp simple_collection ''a'') [''$a'', ''$a2''] @ '')'',
          Some [(''$a'', Num 1), (''$a2'', Num 2)])"
  by code_simp


subsection \<open>Membership filters: the edges of the element loop\<close>

text \<open>The separator of the \<^verbatim>\<open>IN\<close> list is decided by comparing the index with \<open>0\<close> or
  \<open>1\<close>: with two \<^verbatim>\<open>null\<close>s before the first value the list starts with a comma. An
  array that holds only \<^verbatim>\<open>null\<close> opens no parenthesis for the one it closes.\<close>

lemma in_filter_two_leading_nulls:
  "computeCompExp simple_collection (Obj [(''a'', Obj [(''$in'', Arr [Null, Null, Num 1])])]) (Some []) =
     Inr (''(($t.'' @ DQ @ ''a'' @ DQ @ ''[] IN (,$a) OR EXISTS ($t.'' @ DQ @ ''a'' @ DQ
            @ ''[][$element IN (,$a)]) OR NOT EXISTS $t.'' @ DQ @ ''a'' @ DQ @ ''[]))'',
          Some [(''$a'', Num 1)])"
  by code_simp

lemma in_filter_only_null:
  "computeCompExp simple_collection (Obj [(''a'', Obj [(''$in'', Arr [Null])])]) (Some []) =
     Inr (''( OR NOT EXISTS $t.'' @ DQ @ ''a'' @ DQ @ ''[]))'', Some [])"
  by code_simp

subsection \<open>Falsy operands of the update operators\<close>

text \<open>
  Claim C9. For each of the falsy values \<open>0\<close>, \<open>false\<close>, the empty string, \<open>null\<close> and
  \<open>undefined\<close>, \<open>computeLiteral\<close> returns the text \<open>NULL\<close>; so an update that gives one
  of them to \<^verbatim>\<open>$set\<close>, \<^verbatim>\<open>$inc\<close>, \<^verbatim>\<open>$mul\<close>, \<^verbatim>\<open>$min\<close> or \<^verbatim>\<open>$max\<close> for a field \<open>k\<close>
  compiles to a clause that writes \<open>NULL\<close> where the operand stands.
\<close>

theorem computeLiteral_falsy:
  assumes "v \<in> {Num 0, Bool False, Str [], Null, Undefined}"
  shows "computeLiteral v = ''NULL'' \<and>
     computeUpdateClause col (Obj [(''$set'', Obj [(k, v)])]) =
       Inr ('' PUT '' @ T @ '' '' @ computeUpdateSetPutProp k ''NULL'') \<and>
     computeUpdateClause col (Obj [(''$inc'', Obj [(k, v)])]) =
       Inr ('' SET '' @ computeDbProp col k @ '' = '' @ computeDbProp col k @ '' + NULL'') \<and>
     computeUpdateClause col (Obj [(''$mul'', Obj [(k, v)])]) =
       Inr ('' SET '' @ computeDbProp col k @ '' = '' @ computeDbProp col k @ '' * NULL'') \<and>
     computeUpdateClause col (Obj [(''$min'', Obj [(k, v)])]) =
       Inr ('' SET '' @ computeDbProp col k @ '' = CASE WHEN NULL < '' @ computeDbProp col k @
            '' THEN NULL ELSE '' @ computeDbProp col k @ '' END'') \<and>
     computeUpdateClause col (Obj [(''$max'', Obj [(k, v)])]) =
       Inr ('' SET '' @ computeDbProp col k @ '' = CASE WHEN NULL > '' @ computeDbProp col k @
            '' THEN NULL ELSE '' @ computeDbProp col k @ '' END'')"
proof -
  have lit: "computeLiteral v = ''NULL''"
    using assms by (auto simp: computeLiteral_def)
  show ?thesis
    by (simp add: lit computeUpdateClause_def update_operators_def updateField_def Let_def)
qed

theorem computeLiteral_falsy_witness:
  "computeLiteral (Num 0) = ''NULL'' \<and>
   computeUpdateClause simple_collection (Obj [(''$set'', Obj [(''qty'', Num 0)])]) =
     Inr ('' PUT $t {'' @ DQ @ ''qty'' @ DQ @ '': NULL}'') \<and>
   computeUpdateClause simple_collection (Obj [(''$inc'', Obj [(''qty'', Num 0)])]) =
     Inr ('' SET $t.'' @ DQ @ ''qty'' @ DQ @ ''[] = $t.'' @ DQ @ ''qty'' @ DQ @ ''[] + NULL'')"
  using computeLiteral_falsy [of "Num 0" simple_collection "''qty''"]
  by (simp add: T_def computeUpdateSetPutProp_def computeDbProp_def simple_collection_def DQ_def
        is_digit_def)

lemma falsy_values: "(\<not> truthy v) = (v \<in> {Num 0, Bool False, Str [], Null, Undefined})"
  by (cases v) auto

subsection \<open>Paths that start with the identity field's name\<close>

lemma foldl_segments:
  "foldl (\<lambda>acc cur. if isPositiveInteger cur then acc @ ''['' @ cur @ '']''
                     else acc @ ''.'' @ DQ @ cur @ DQ) a segs
   = a @ concat (map (\<lambda>seg. if isPositiveInteger seg then ''['' @ seg @ '']''
                             else ''.'' @ DQ @ seg @ DQ) segs)"
  by (induction segs arbitrary: a) auto

text \<open>
  Claim C10. A path whose text starts with \<open>_id\<close> (so also \<open>_idx\<close> or \<open>_identity\<close>) is
  translated to the key column \<open>$t.kvid\<close> on a simple key, and to \<open>$t.\<close> followed by what
  comes after \<open>_id\<close> on a composite key; every other path, and only those, gets the
  quoted dot-path with the array-flatten marker \<open>[]\<close> at its end.
\<close>

theorem computeDbProp_id_prefix:
  "computeDbProp col p =
     (if prefix ''_id'' p then
        (if hasCompositeKeys col then T @ ''.'' @ drop 3 p else T @ ''.'' @ KVID)
      else T @ quoted_dot_path p @ ''[]'')"
  by (simp add: computeDbProp_def quoted_dot_path_def foldl_segments numeral_3_eq_3)

theorem computeDbProp_id_prefix_witness:
  "computeDbProp simple_collection ''_idx'' = ''$t.kvid'' \<and>
   computeDbProp (simple_collection\<lparr>hasCompositeKeys := True\<rparr>) ''_identity'' = ''$t.entity'' \<and>
   computeDbProp simple_collection ''a.0'' = ''$t.'' @ DQ @ ''a'' @ DQ @ ''[0][]''"
  using computeDbProp_id_prefix [of simple_collection "''_idx''"]
    computeDbProp_id_prefix [of "simple_collection\<lparr>hasCompositeKeys := True\<rparr>" "''_identity''"]
    computeDbProp_id_prefix [of simple_collection "''a.0''"]
  by (simp add: simple_collection_def T_def KVID_def quoted_dot_path_def DQ_def is_digit_def)

subsection \<open>Writing a document and reading it back\<close>

lemma plain_fixTypesBeforeInsert: "plain v \<Longrightarrow> fixTypesBeforeInsert v = v"
proof (induction v)
  case (Arr xs)
  then show ?case by (auto simp: list_all_iff intro: map_idI)
next
  case (Obj fs)
  then have "\<And>k v. (k, v) \<in> set fs \<Longrightarrow> fixTypesBeforeInsert v = v"
    by (fastforce simp: list_all_iff)
  then have "map (\<lambda>(k, v). (k, fixTypesBeforeInsert v)) fs = fs"
    by (intro map_idI) auto
  then show ?case by simp
qed auto

lemma sequence_err_all_Inr: "sequence_err (map Inr xs) = Inr xs"
  by (induction xs) auto

lemma plain_fixTypesAfterRead: "plain v \<Longrightarrow> fixTypesAfterRead v = Inr v"
proof (induction v)
  case (Arr xs)
  then have m: "map fixTypesAfterRead xs = map Inr xs"
    by (auto simp: list_all_iff)
  show ?case by (simp only: fixTypesAfterRead.simps m sequence_err_all_Inr sum.case)
next
  case (Obj fs)
  then have "\<And>k v. (k, v) \<in> set fs \<Longrightarrow> fixTypesAfterRead v = Inr v"
    by (fastforce simp: list_all_iff)
  then have m: "map (\<lambda>(k, v). case fixTypesAfterRead v of Inl e \<Rightarrow> Inl e | Inr v' \<Rightarrow> Inr (k, v')) fs
             = map Inr fs"
    by (intro map_cong) auto
  from Obj.prems have n: "\<not> (\<not> OBJECTID_ENABLED \<and> truthy (get_prop fs ''_id'') \<and> is_string (get_prop fs ''_id''))"
    by simp
  show ?case by (simp only: fixTypesAfterRead.simps m n if_False sequence_err_all_Inr sum.case)
qed auto


lemma update_absent: "k \<notin> fst ` set al \<Longrightarrow> AList.update k v al = al @ [(k, v)]"
  by (induction al) auto

lemma delete_absent: "k \<notin> fst ` set al \<Longrightarrow> AList.delete k al = al"
  by (induction al) auto

lemma assign_fresh:
  "distinct (map fst ys) \<Longrightarrow> fst ` set xs \<inter> fst ` set ys = {} \<Longrightarrow>
   foldl (\<lambda>r kv. AList.update (fst kv) (snd kv) r) xs ys = xs @ ys"
proof (induction ys arbitrary: xs)
  case Nil
  then show ?case by simp
next
  case (Cons y ys)
  from Cons.prems have a: "fst y \<notin> fst ` set xs" by auto
  have "foldl (\<lambda>r kv. AList.update (fst kv) (snd kv) r) (xs @ [y]) ys = (xs @ [y]) @ ys"
    using Cons.prems by (intro Cons.IH) auto
  with a show ?case by (simp add: update_absent)
qed

lemma get_prop_delete_same: "get_prop (AList.delete k al) k = Undefined"
  by (simp add: get_prop_def delete_conv')

lemma keys_delete: "fst ` set (AList.delete k al) = fst ` set al - {k}"
  by (induction al) auto

lemma get_prop_fixed:
  "get_prop (map (\<lambda>(k, v). (k, fixTypesBeforeInsert v)) fs) k = fixTypesBeforeInsert (get_prop fs k)"
  by (induction fs) (auto simp: get_prop_def)

lemma keys_fixed:
  "map fst (map (\<lambda>(k, v). (k, fixTypesBeforeInsert v)) fs) = map fst fs"
  by (induction fs) auto

lemma storable_fixTypesAfterRead:
  "storable v \<Longrightarrow> fixTypesAfterRead (fixTypesBeforeInsert v) = Inr (fixTypesBeforeInsert v)"
proof (induction v)
  case (Arr xs)
  then have m: "map fixTypesAfterRead (map fixTypesBeforeInsert xs) = map Inr (map fixTypesBeforeInsert xs)"
    by (auto simp: list_all_iff)
  show ?case
    by (simp only: fixTypesBeforeInsert.simps fixTypesAfterRead.simps m sequence_err_all_Inr sum.case)
next
  case (Obj fs)
  let ?fs' = "map (\<lambda>(k, v). (k, fixTypesBeforeInsert v)) fs"
  from Obj have "\<And>k v. (k, v) \<in> set fs \<Longrightarrow>
      fixTypesAfterRead (fixTypesBeforeInsert v) = Inr (fixTypesBeforeInsert v)"
    by (fastforce simp: list_all_iff)
  then have m: "map (\<lambda>(k, v). case fixTypesAfterRead v of Inl e \<Rightarrow> Inl e | Inr v' \<Rightarrow> Inr (k, v')) ?fs'
             = map Inr ?fs'"
    by (auto simp: o_def split_beta)
  from Obj.prems have n: "\<not> (\<not> OBJECTID_ENABLED \<and> truthy (get_prop ?fs' ''_id'') \<and> is_string (get_prop ?fs' ''_id''))"
    by (simp add: get_prop_fixed)
  show ?case
    by (simp only: fixTypesBeforeInsert.simps fixTypesAfterRead.simps m n if_False sequence_err_all_Inr sum.case)
qed (auto simp: OBJECTID_ENABLED_def)

lemma plain_storable: "plain v \<Longrightarrow> storable v"
proof (induction v)
  case (Obj fs)
  then have "\<And>k v. (k, v) \<in> set fs \<Longrightarrow> storable v"
    by (fastforce simp: list_all_iff)
  moreover from Obj.prems have "plain (get_prop fs ''_id'')"
    by (auto simp: get_prop_def list_all_iff split: option.splits dest!: map_of_SomeD)
  ultimately show ?case using Obj.prems
    by (auto simp: list_all_iff plain_fixTypesBeforeInsert)
qed (auto simp: list_all_iff)

text \<open>
  Claim C3, as amended. On a simple key, take a document with distinct property names
  whose \<open>_id\<close> is a string without the identifier prefix, that has no property \<open>kvid\<close>,
  and whose other values are \<open>storable\<close> at every depth (no object identifier, no string
  or date text with the identifier prefix, no object whose \<open>_id\<close> is stored as a non-empty
  string). Writing it into a row and reading the row back gives the same property names,
  \<open>_id\<close> coming last, each value as the write path stored it: every date, at any depth,
  comes back as its ISO text, and everything else is unchanged. When the document holds
  no date (its other values are \<open>plain\<close>), the document read back has the same properties
  with the same values, arrays and nested objects included.
\<close>

theorem roundtrip_simple_key:
  assumes simple: "\<not> hasCompositeKeys col"
    and keys: "distinct (map fst fs)"
    and ident: "map_of fs ''_id'' = Some (Str s)"
    and tag: "\<not> prefix OBJECTID_PREFIX s"
    and nokv: "KVID \<notin> fst ` set fs"
    and rest: "list_all (\<lambda>(k, v). storable v) (AList.delete ''_id'' fs)"
  shows "roundtrip col fs =
           Inr (Obj (map (\<lambda>(k, v). (k, fixTypesBeforeInsert v)) (AList.delete ''_id'' fs)
                     @ [(''_id'', Str s)]))
       \<and> (list_all (\<lambda>(k, v). plain v) (AList.delete ''_id'' fs) \<longrightarrow>
            roundtrip col fs = Inr (Obj (AList.delete ''_id'' fs @ [(''_id'', Str s)]))
            \<and> map_of (AList.delete ''_id'' fs @ [(''_id'', Str s)]) = map_of fs)"
proof -
  let ?rest = "AList.delete ''_id'' fs"
  let ?rest' = "map (\<lambda>(k, v). (k, fixTypesBeforeInsert v)) ?rest"
  have kvid: "KVID \<noteq> ''_id''" by (simp add: KVID_def)
  have keys': "map fst ?rest' = map fst ?rest" by (rule keys_fixed)
  have kset: "fst ` set ?rest' = fst ` set fs - {''_id''}"
    using arg_cong [OF keys', of set] by (simp only: set_map keys_delete)
  have kvrest: "KVID \<notin> fst ` set ?rest'"
    unfolding kset using nokv by simp
  have idrest: "''_id'' \<notin> fst ` set ?rest'"
    unfolding kset by simp
  have drest: "distinct (map fst ?rest')"
    unfolding keys' using keys by (rule distinct_delete)
  have fr: "fixTypesBeforeInsert (Obj ?rest) = Obj ?rest'"
    by simp
  have row: "marshallObjectIntoRow col fs = (KVID, Str s) # ?rest'"
    unfolding marshallObjectIntoRow_def fr
    using simple ident kvrest drest
    by (simp add: setPK_def get_prop_def object_assign_def assign_fresh)
  have noid: "get_prop ((KVID, Str s) # ?rest) ''_id'' = Undefined"
    using kvid by (simp add: get_prop_def delete_conv')
  have st: "storable (Obj ((KVID, Str s) # ?rest))"
    using rest tag noid by simp
  have fb: "fixTypesBeforeInsert (Obj ((KVID, Str s) # ?rest)) = Obj ((KVID, Str s) # ?rest')"
    by simp
  from storable_fixTypesAfterRead [OF st]
  have fa: "fixTypesAfterRead (Obj ((KVID, Str s) # ?rest')) = Inr (Obj ((KVID, Str s) # ?rest'))"
    unfolding fb .
  have un: "unmarshalObjectFromRow (Obj ((KVID, Str s) # ?rest')) = Inr (Obj (?rest' @ [(''_id'', Str s)]))"
  proof -
    have u: "AList.update ''_id'' (Str s) ?rest' = ?rest' @ [(''_id'', Str s)]"
      by (rule update_absent [OF idrest])
    have "KVID \<notin> fst ` set (?rest' @ [(''_id'', Str s)])"
      using kvid kvrest by auto
    then have d: "AList.delete KVID (?rest' @ [(''_id'', Str s)]) = ?rest' @ [(''_id'', Str s)]"
      by (rule delete_absent)
    show ?thesis
      using kvid by (simp add: OBJECTID_ENABLED_def get_prop_def u d)
  qed
  have rt: "roundtrip col fs = Inr (Obj (?rest' @ [(''_id'', Str s)]))"
    by (simp only: roundtrip_def readRow_def row fa sum.case un)
  have pl: "roundtrip col fs = Inr (Obj (?rest @ [(''_id'', Str s)]))
        \<and> map_of (?rest @ [(''_id'', Str s)]) = map_of fs"
    if p: "list_all (\<lambda>(k, v). plain v) ?rest"
  proof
    from p have "\<And>k v. (k, v) \<in> set ?rest \<Longrightarrow> fixTypesBeforeInsert v = v"
      by (fastforce simp: list_all_iff intro: plain_fixTypesBeforeInsert)
    then have "?rest' = ?rest" by (intro map_idI) auto
    with rt show "roundtrip col fs = Inr (Obj (?rest @ [(''_id'', Str s)]))" by simp
    show "map_of (?rest @ [(''_id'', Str s)]) = map_of fs"
    proof
      fix k
      show "map_of (?rest @ [(''_id'', Str s)]) k = map_of fs k"
        using ident by (cases "k = ''_id''") (auto simp: map_add_def delete_conv' split: option.splits)
    qed
  qed
  from rt pl show ?thesis by blast
qed

theorem roundtrip_simple_key_witness:
  "roundtrip simple_collection
     [(''_id'', Str ''k1''), (''n'', Num 3), (''tags'', Arr [Str ''a'', Obj [(''x'', Null)]])] =
   Inr (Obj [(''n'', Num 3), (''tags'', Arr [Str ''a'', Obj [(''x'', Null)]]), (''_id'', Str ''k1'')])
   \<and> roundtrip simple_collection
     [(''_id'', Str ''k1''), (''log'', Arr [Obj [(''at'', DateV ''2024-01-01T00:00:00.000Z'' ''Mon Jan 01 2024'')]])] =
   Inr (Obj [(''log'', Arr [Obj [(''at'', Str ''2024-01-01T00:00:00.000Z'')]]), (''_id'', Str ''k1'')])"
  using roundtrip_simple_key [of simple_collection
      "[(''_id'', Str ''k1''), (''n'', Num 3), (''tags'', Arr [Str ''a'', Obj [(''x'', Null)]])]" "''k1''"]
    roundtrip_simple_key [of simple_collection
      "[(''_id'', Str ''k1''), (''log'', Arr [Obj [(''at'', DateV ''2024-01-01T00:00:00.000Z'' ''Mon Jan 01 2024'')]])]" "''k1''"]
  by (simp add: simple_collection_def OBJECTID_PREFIX_def KVID_def get_prop_def)

text \<open>
  Claim C3 as stated also covers dates. A date is written as its ISO text and nothing on
  the read path turns the text back into a date: the document read back differs from
  the original under \<open>when\<close>.
\<close>

theorem roundtrip_date_counterexample:
  "roundtrip simple_collection
     [(''_id'', Str ''k1''), (''when'', DateV ''2024-01-01T00:00:00.000Z'' ''Mon Jan 01 2024'')] =
   Inr (Obj [(''when'', Str ''2024-01-01T00:00:00.000Z''), (''_id'', Str ''k1'')])
   \<and> map_of [(''when'', Str ''2024-01-01T00:00:00.000Z''), (''_id'', Str ''k1'')] ''when''
     \<noteq> map_of [(''_id'', Str ''k1''), (''when'', DateV ''2024-01-01T00:00:00.000Z'' ''Mon Jan 01 2024'')] ''when''"
  by code_simp

text \<open>On a composite key the read path does not rebuild \<open>_id\<close>: the key fields stay at
  the top of the document and \<open>_id\<close> is \<^verbatim>\<open>undefined\<close>.\<close>

lemma roundtrip_composite_key:
  "roundtrip \<lparr> hasCompositeKeys = True, primaryKeyList = [''a'', ''b''] \<rparr>
     [(''_id'', Obj [(''a'', Str ''x''), (''b'', Str ''y'')]), (''n'', Num 1)] =
   Inr (Obj [(''a'', Str ''x''), (''b'', Str ''y''), (''n'', Num 1), (''_id'', Undefined)])"
  by code_simp

subsection \<open>The cap of \<open>toArray\<close>\<close>

lemma start_query_succeeds:
  assumes "prepare_res st = Inr p" and "query_res st = Inr g"
  shows "\<exists>w1. start_query st w c = (Inr (), w1, c\<lparr>isStarted := True, gen := g\<rparr>)"
  using assms by (cases "map_of (cache w) (statement c)")
    (simp_all add: start_query_def bind_and_query_def Let_def)

lemma toArray_loop_batches:
  assumes "isStarted c" and "\<not> isClosed c" and "gen c = Some (map Batch bs)"
    and "map (\<lambda>rows. sequence_err (map readRow rows)) bs = map Inr dss"
  shows "(length array + length (documents c) + length (concat dss) \<le> maxLimit c \<longrightarrow>
            fst (toArray_loop st w c array) = Inr (array @ documents c @ concat dss))
       \<and> (length array + length (documents c) + length (concat dss) > maxLimit c \<longrightarrow>
            (\<exists>n. n > maxLimit c \<and> fst (toArray_loop st w c array) = Inl (ResultLimitExceeded n (maxLimit c))))"
  using assms
proof (induction bs arbitrary: w c array dss)
  case Nil
  then have dss: "dss = []" by simp
  show ?case
  proof (cases "length array + length (documents c) > maxLimit c")
    case True
    then show ?thesis using dss by (subst toArray_loop.simps) auto
  next
    case False
    have "fetchBatch st w c = (Inr (), w\<lparr>calls := calls w @ [GenNext]\<rparr>, close c)"
      using Nil.prems by (simp add: fetchBatch_def pull_batch_def Let_def)
    then show ?thesis using False dss
      by (subst toArray_loop.simps) (auto simp: close_def)
  qed
next
  case (Cons b bs)
  from Cons.prems(4) obtain ds dss' where dss: "dss = ds # dss'"
    and b: "sequence_err (map readRow b) = Inr ds"
    and rest: "map (\<lambda>rows. sequence_err (map readRow rows)) bs = map Inr dss'"
    by (cases dss) auto
  show ?case
  proof (cases "length array + length (documents c) > maxLimit c")
    case True
    then show ?thesis by (subst toArray_loop.simps) auto
  next
    case False
    let ?c' = "c\<lparr>gen := Some (map Batch bs), documents := ds\<rparr>"
    let ?w' = "w\<lparr>calls := calls w @ [GenNext]\<rparr>"
    have f: "fetchBatch st w c = (Inr (), ?w', ?c')"
      using Cons.prems b by (simp add: fetchBatch_def pull_batch_def Let_def)
    have step: "toArray_loop st w c array = toArray_loop st ?w' ?c' (array @ documents c)"
      using False f Cons.prems(2) by (subst toArray_loop.simps) simp
    have "isStarted ?c'" "\<not> isClosed ?c'" "gen ?c' = Some (map Batch bs)"
      using Cons.prems by simp_all
    from Cons.IH [OF this rest]
    have "(length (array @ documents c) + length (documents ?c') + length (concat dss') \<le> maxLimit ?c' \<longrightarrow>
            fst (toArray_loop st ?w' ?c' (array @ documents c)) = Inr ((array @ documents c) @ documents ?c' @ concat dss'))
       \<and> (length (array @ documents c) + length (documents ?c') + length (concat dss') > maxLimit ?c' \<longrightarrow>
            (\<exists>n. n > maxLimit ?c' \<and> fst (toArray_loop st ?w' ?c' (array @ documents c)) = Inl (ResultLimitExceeded n (maxLimit ?c'))))" .
    then show ?thesis unfolding step using dss by (simp add: add.assoc)
  qed
qed

text \<open>
  Claim C4. Take a new cursor with cap \<open>K\<close> on a store that prepares the statement and
  whose batch source serves the batches \<open>bs\<close>, every row of which the read path turns
  into a document (\<open>dss\<close>, batch by batch). When the documents are more than \<open>K\<close> (so
  also when they are \<open>K + 1\<close>), \<open>toArray\<close> fails with the result-limit error; when they
  are at most \<open>K\<close> (so also when they are exactly \<open>K\<close>), it returns all of them in the
  order in which the store served them.
\<close>

theorem toArray_cap:
  assumes fresh: "c = new_cursor stmt b (Some K)"
    and prep: "prepare_res st = Inr p"
    and query: "query_res st = Inr (Some (map Batch bs))"
    and rows: "map (\<lambda>rows. sequence_err (map readRow rows)) bs = map Inr dss"
  shows "(length (concat dss) \<le> K \<longrightarrow> fst (toArray st w c) = Inr (concat dss))
       \<and> (length (concat dss) > K \<longrightarrow>
            (\<exists>n. n > K \<and> fst (toArray st w c) = Inl (ResultLimitExceeded n K)))"
proof -
  have d: "documents c = []" "maxLimit c = K" "\<not> isClosed c" "\<not> isStarted c"
    using fresh by (simp_all add: new_cursor_def)
  show ?thesis
  proof (cases bs)
    case Nil
    with rows have dss: "dss = []" by simp
    from start_query_succeeds [OF prep query, of w c] Nil
    obtain w1 c1 where s: "start_query st w c = (Inr (), w1, c1)" and g: "gen c1 = Some []"
      by auto
    have "fetchBatch st w c = (Inr (), w1\<lparr>calls := calls w1 @ [GenNext]\<rparr>, close c1)"
      using s g d by (simp add: fetchBatch_def pull_batch_def Let_def)
    then show ?thesis using dss d
      by (simp add: toArray_def toArray_loop.simps [of st w c] close_def)
  next
    case (Cons r rs)
    from rows Cons obtain ds dss' where dss: "dss = ds # dss'"
      and r: "sequence_err (map readRow r) = Inr ds"
      and rest: "map (\<lambda>rows. sequence_err (map readRow rows)) rs = map Inr dss'"
      by (cases dss) auto
    from start_query_succeeds [OF prep query, of w c] Cons
    obtain w1 c1 where s: "start_query st w c = (Inr (), w1, c1)"
      and c1: "c1 = c\<lparr>isStarted := True, gen := Some (map Batch (r # rs))\<rparr>"
      by auto
    let ?c' = "c1\<lparr>gen := Some (map Batch rs), documents := ds\<rparr>"
    let ?w' = "w1\<lparr>calls := calls w1 @ [GenNext]\<rparr>"
    have f: "fetchBatch st w c = (Inr (), ?w', ?c')"
      using s c1 r d by (simp add: fetchBatch_def pull_batch_def Let_def)
    have c': "isStarted ?c'" "\<not> isClosed ?c'" "gen ?c' = Some (map Batch rs)"
      "maxLimit ?c' = K" "documents ?c' = ds"
      using c1 d by simp_all
    have step: "toArray st w c = toArray_loop st ?w' ?c' []"
      using f d c'(2)
      by (simp add: toArray_def toArray_loop.simps [of st w c])
    from toArray_loop_batches [OF c'(1,2,3) rest, where array = "[]" and st = st and w = ?w']
    show ?thesis unfolding step c'(4) c'(5) using dss by simp
  qed
qed


theorem toArray_cap_witness:
  "fst (toArray (batch_store [[Obj [(''kvid'', Str ''k1'')]], [Obj [(''kvid'', Str ''k2'')]]])
          \<lparr> cache = [], calls = [] \<rparr> (new_cursor demo_stmt None (Some 2))) =
     Inr [Obj [(''_id'', Str ''k1'')], Obj [(''_id'', Str ''k2'')]]
   \<and> (\<exists>n. n > 2 \<and>
        fst (toArray (batch_store [[Obj [(''kvid'', Str ''k1'')], Obj [(''kvid'', Str ''k2'')]],
                                    [Obj [(''kvid'', Str ''k3'')]]])
               \<lparr> cache = [], calls = [] \<rparr> (new_cursor demo_stmt None (Some 2))) =
          Inl (ResultLimitExceeded n 2))"
proof -
  let ?r1 = "Obj [(''kvid'', Str ''k1'')]" and ?r2 = "Obj [(''kvid'', Str ''k2'')]"
    and ?r3 = "Obj [(''kvid'', Str ''k3'')]"
  let ?d1 = "Obj [(''_id'', Str ''k1'')]" and ?d2 = "Obj [(''_id'', Str ''k2'')]"
    and ?d3 = "Obj [(''_id'', Str ''k3'')]"
  have rd: "readRow ?r1 = Inr ?d1" "readRow ?r2 = Inr ?d2" "readRow ?r3 = Inr ?d3"
    by (simp_all add: readRow_def OBJECTID_ENABLED_def OBJECTID_PREFIX_def get_prop_def KVID_def)
  have two: "map (\<lambda>rows. sequence_err (map readRow rows)) [[?r1], [?r2]] = map Inr [[?d1], [?d2]]"
    by (simp add: rd)
  have three: "map (\<lambda>rows. sequence_err (map readRow rows)) [[?r1, ?r2], [?r3]] = map Inr [[?d1, ?d2], [?d3]]"
    by (simp add: rd)
  have p: "\<And>bs. prepare_res (batch_store bs) = Inr \<lparr> sql = demo_stmt, bound = [] \<rparr>"
    and q: "\<And>bs. query_res (batch_store bs) = Inr (Some (map Batch bs))"
    by (simp_all add: batch_store_def)
  from toArray_cap [OF refl p q two, where stmt = demo_stmt and b = None and K = 2
      and w = "\<lparr> cache = [], calls = [] \<rparr>"]
  have a: "fst (toArray (batch_store [[?r1], [?r2]]) \<lparr> cache = [], calls = [] \<rparr>
               (new_cursor demo_stmt None (Some 2))) = Inr [?d1, ?d2]"
    by simp
  from toArray_cap [OF refl p q three, where stmt = demo_stmt and b = None and K = 2
      and w = "\<lparr> cache = [], calls = [] \<rparr>"]
  have b: "\<exists>n. n > 2 \<and> fst (toArray (batch_store [[?r1, ?r2], [?r3]]) \<lparr> cache = [], calls = [] \<rparr>
               (new_cursor demo_stmt None (Some 2))) = Inl (ResultLimitExceeded n 2)"
    by simp
  from a b show ?thesis by blast
qed

subsection \<open>A failure while a batch is fetched\<close>

text \<open>
  Claim C6. A failure of the statement during streaming should clear the whole
  prepared-statement cache before it reaches the caller. \<open>fetchBatch\<close> clears the cache
  only in the \<^verbatim>\<open>catch\<close> around the \<^verbatim>\<open>queryIterable\<close> call; \<^verbatim>\<open>_gen.next()\<close> is
  outside of it. On a store whose batch source serves one batch and then fails, the
  first \<open>fetchBatch\<close> caches the statement and buffers the batch, and the second one
  propagates the failure with the statement still in the cache.
\<close>

theorem fetchBatch_failure_keeps_cache:
  "fetchBatch failing_store \<lparr> cache = [], calls = [] \<rparr> (new_cursor demo_stmt None None) =
     (Inr (),
      \<lparr> cache = [(demo_stmt, \<lparr> sql = demo_stmt, bound = [] \<rparr>)],
        calls = [Prepare demo_stmt, QueryIterable \<lparr> sql = demo_stmt, bound = [] \<rparr>, GenNext] \<rparr>,
      \<lparr> documents = [Obj [(''_id'', Str ''k1'')]], isStarted = True, isClosed = False,
        gen = Some [Fail (StoreError ''table changed'')], statement = demo_stmt, bindings = None,
        maxLimit = MAX_QUERY_RESULTS_LIMIT \<rparr>)
   \<and> fetchBatch failing_store
       \<lparr> cache = [(demo_stmt, \<lparr> sql = demo_stmt, bound = [] \<rparr>)],
         calls = [Prepare demo_stmt, QueryIterable \<lparr> sql = demo_stmt, bound = [] \<rparr>, GenNext] \<rparr>
       \<lparr> documents = [Obj [(''_id'', Str ''k1'')]], isStarted = True, isClosed = False,
         gen = Some [Fail (StoreError ''table changed'')], statement = demo_stmt, bindings = None,
         maxLimit = MAX_QUERY_RESULTS_LIMIT \<rparr> =
     (Inl (StoreError ''table changed''),
      \<lparr> cache = [(demo_stmt, \<lparr> sql = demo_stmt, bound = [] \<rparr>)],
        calls = [Prepare demo_stmt, QueryIterable \<lparr> sql = demo_stmt, bound = [] \<rparr>, GenNext, GenNext] \<rparr>,
      \<lparr> documents = [Obj [(''_id'', Str ''k1'')]], isStarted = True, isClosed = False,
        gen = Some [], statement = demo_stmt, bindings = None,
        maxLimit = MAX_QUERY_RESULTS_LIMIT \<rparr>)"
  by (simp add: fetchBatch_def start_query_def bind_and_query_def pull_batch_def failing_store_def
        new_cursor_def Let_def readRow_def OBJECTID_ENABLED_def OBJECTID_PREFIX_def get_prop_def
        KVID_def)

text \<open>The path that the \<^verbatim>\<open>catch\<close> covers: when \<^verbatim>\<open>queryIterable\<close> itself fails, the
  cache is empty when the error leaves \<open>fetchBatch\<close>.\<close>

lemma fetchBatch_query_error_clears_cache:
  assumes "\<not> isClosed c" "\<not> isStarted c" "query_res st = Inl e"
    and "map_of (cache w) (statement c) = Some p"
  shows "\<exists>w' c'. fetchBatch st w c = (Inl e, w', c') \<and> cache w' = []"
  using assms by (simp add: fetchBatch_def start_query_def bind_and_query_def Let_def)

subsection \<open>Closing a cursor\<close>

text \<open>A call of \<open>fetchBatch\<close> that is awaited, with nothing else touching the cursor before
  it ends, is the call begun and then resumed until it ends.\<close>

lemma fetchBatch_finish_Finished [simp]: "fetchBatch_finish st (Finished r) w c = (r, w, c)"
  by (simp add: fetchBatch_finish.simps)

lemma fetchBatch_finish_AwaitBatch:
  "fetchBatch_finish st (AwaitBatch ev) w c =
     (case fetchBatch_resume st (AwaitBatch ev) w c of (t', w', c') \<Rightarrow> fetchBatch_finish st t' w' c')"
  by (simp add: fetchBatch_finish.simps [of st "AwaitBatch ev"])

lemma fetchBatch_finish_AwaitQuery:
  "fetchBatch_finish st AwaitQuery w c =
     (case fetchBatch_resume st AwaitQuery w c of (t', w', c') \<Rightarrow> fetchBatch_finish st t' w' c')"
  by (simp add: fetchBatch_finish.simps [of st AwaitQuery])

lemma fetchBatch_finish_AwaitCopy:
  "fetchBatch_finish st (AwaitCopy p) w c =
     (case fetchBatch_resume st (AwaitCopy p) w c of (t', w', c') \<Rightarrow> fetchBatch_finish st t' w' c')"
  by (simp add: fetchBatch_finish.simps [of st "AwaitCopy p"])

lemma fetchBatch_finish_AwaitPrepare:
  "fetchBatch_finish st AwaitPrepare w c =
     (case fetchBatch_resume st AwaitPrepare w c of (t', w', c') \<Rightarrow> fetchBatch_finish st t' w' c')"
  by (simp add: fetchBatch_finish.simps [of st AwaitPrepare])

lemmas fetchBatch_finish_steps =
  fetchBatch_finish_AwaitBatch fetchBatch_finish_AwaitQuery fetchBatch_finish_AwaitCopy
  fetchBatch_finish_AwaitPrepare

lemma batch_call_finish:
  "(case batch_call w c of (t, w1, c1) \<Rightarrow> fetchBatch_finish st t w1 c1) = pull_batch w c"
  by (auto simp: batch_call_def pull_batch_def Let_def fetchBatch_finish_steps fetchBatch_resume_def
        close_def
        split: option.splits list.splits gen_event.splits sum.splits)

lemma statement_ready_finish:
  "(case statement_ready w c p of (t, w1, c1) \<Rightarrow> fetchBatch_finish st t w1 c1) =
     (case bind_and_query st w c p of
        (Inl e, w1, c1) \<Rightarrow> (Inl e, w1, c1)
      | (Inr u, w1, c1) \<Rightarrow> pull_batch w1 c1)"
  using batch_call_finish [where st = st]
  by (auto simp: statement_ready_def query_call_def bind_and_query_def Let_def
        fetchBatch_finish_steps fetchBatch_resume_def
        split: option.splits sum.splits)

lemma fetchBatch_as_task:
  "fetchBatch st w c = (case fetchBatch_begin w c of (t, w1, c1) \<Rightarrow> fetchBatch_finish st t w1 c1)"
  using batch_call_finish [where st = st] statement_ready_finish [where st = st]
  by (auto simp: fetchBatch_def fetchBatch_begin_def start_query_def Let_def
        fetchBatch_finish_steps fetchBatch_resume_def
        split: option.splits sum.splits)

text \<open>
  Claim C7. Once \<open>close\<close> has been called, no operation should call the store again.
  \<open>fetchBatch\<close> tests the closed flag on entry only, and the asynchronous iterator
  starts it on a new cursor without awaiting it. The first pull on the iterator of a new
  cursor, on a store that would serve one document: the call of \<open>fetchBatch\<close> is
  suspended at \<^verbatim>\<open>client.prepare\<close>; the \<open>next\<close> of the loop calls \<open>fetchBatch\<close> again, which
  finds no batch source and calls \<open>close\<close>; the iteration ends without a document, the
  cursor closed. The suspended call then goes on, on the closed cursor: it caches the
  statement, calls \<^verbatim>\<open>queryIterable\<close> and \<^verbatim>\<open>_gen.next()\<close>, and puts the document in the
  buffer.
\<close>

theorem iteration_calls_store_after_close:
  "iterator_next (batch_store [[Obj [(''kvid'', Str ''k1'')]]]) \<lparr> cache = [], calls = [] \<rparr>
       (new_cursor demo_stmt None None) =
     (Inr None, [AwaitPrepare],
      \<lparr> cache = [], calls = [Prepare demo_stmt] \<rparr>,
      \<lparr> documents = [], isStarted = True, isClosed = True, gen = None, statement = demo_stmt,
        bindings = None, maxLimit = MAX_QUERY_RESULTS_LIMIT \<rparr>)
   \<and> settle (batch_store [[Obj [(''kvid'', Str ''k1'')]]]) [AwaitPrepare]
       \<lparr> cache = [], calls = [Prepare demo_stmt] \<rparr>
       \<lparr> documents = [], isStarted = True, isClosed = True, gen = None, statement = demo_stmt,
         bindings = None, maxLimit = MAX_QUERY_RESULTS_LIMIT \<rparr> =
     (\<lparr> cache = [(demo_stmt, \<lparr> sql = demo_stmt, bound = [] \<rparr>)],
        calls = [Prepare demo_stmt, QueryIterable \<lparr> sql = demo_stmt, bound = [] \<rparr>, GenNext] \<rparr>,
      \<lparr> documents = [Obj [(''_id'', Str ''k1'')]], isStarted = True, isClosed = True,
        gen = Some [], statement = demo_stmt, bindings = None,
        maxLimit = MAX_QUERY_RESULTS_LIMIT \<rparr>)"
  by (simp add: iterator_next_def iterator_loop_def fetchBatch_begin_def next_loop.simps
        shift_def not_nullish_def fetchBatch_def pull_batch_def close_def
        fetchBatch_finish_steps fetchBatch_resume_def statement_ready_def query_call_def
        batch_call_def batch_store_def new_cursor_def Let_def readRow_def
        OBJECTID_ENABLED_def OBJECTID_PREFIX_def get_prop_def KVID_def)

text \<open>The closed flag is never reset, also by a call that goes on after it was set.\<close>

lemma fetchBatch_resume_closed:
  "fetchBatch_resume st t w c = (t', w', c') \<Longrightarrow> isClosed c \<Longrightarrow> isClosed c'"
  by (auto simp: fetchBatch_resume_def statement_ready_def query_call_def batch_call_def Let_def
        close_def
        split: fetch_task.splits sum.splits option.splits list.splits gen_event.splits if_splits)

text \<open>A call suspended at \<^verbatim>\<open>queryIterable\<close> whose answer is a batch source goes on to
  call \<^verbatim>\<open>_gen.next()\<close>, closed cursor or not.\<close>

lemma fetchBatch_resume_ignores_close:
  assumes "query_res st = Inr (Some es)"
  shows "calls (fst (snd (fetchBatch_resume st AwaitQuery w (close c)))) = calls w @ [GenNext]"
  using assms
  by (simp add: fetchBatch_resume_def batch_call_def Let_def split: list.splits)

lemma next_loop_closed:
  "isClosed c \<Longrightarrow> \<exists>d c'. next_loop st w c = (Inr d, w, c') \<and> isClosed c'
      \<and> (documents c = [] \<longrightarrow> d = Null)"
proof (induction "length (documents c)" arbitrary: c rule: less_induct)
  case less
  obtain doc c1 where s: "shift c = (doc, c1)" by (cases "shift c")
  from shift_closed [OF s] less.prems have c1: "isClosed c1" by simp
  show ?case
  proof (cases "not_nullish doc")
    case True
    with s c1 show ?thesis
      by (subst next_loop.simps) (auto simp: shift_def not_nullish_def split: list.splits)
  next
    case False
    show ?thesis
    proof (cases "documents c1 = []")
      case True
      with False s c1 show ?thesis
        by (subst next_loop.simps) (simp add: fetchBatch_closed)
    next
      case ne: False
      from shift_length [OF s ne] have "length (documents c1) < length (documents c)" .
      from less.hyps [OF this c1] obtain d c' where
        "next_loop st w c1 = (Inr d, w, c')" "isClosed c'" by blast
      moreover from s ne have "documents c \<noteq> []"
        by (auto simp: shift_def split: list.splits)
      ultimately show ?thesis
        using False s c1 ne by (subst next_loop.simps) (simp add: fetchBatch_closed)
    qed
  qed
qed

lemma toArray_closed:
  "isClosed c \<Longrightarrow> snd (toArray st w c) = (w, c)"
  by (simp add: toArray_def toArray_loop.simps [of st w c] fetchBatch_closed)

lemma iterator_next_closed:
  "isClosed c \<Longrightarrow> iterator_next st w c = (Inr None, [], w, c)"
  by (simp add: iterator_next_def)

lemma run_op_closed:
  assumes "isClosed c"
  shows "fst (run_op st op w c) = w \<and> isClosed (snd (run_op st op w c))"
proof (cases op)
  case OpNext
  from next_loop_closed [OF assms, of st w] show ?thesis
    using OpNext by auto
next
  case OpTryNext
  obtain doc c1 where s: "shift c = (doc, c1)" by (cases "shift c")
  obtain doc' c2 where s': "shift c1 = (doc', c2)" by (cases "shift c1")
  from shift_closed [OF s] shift_closed [OF s'] assms have "isClosed c1" "isClosed c2" by simp_all
  with s s' OpTryNext show ?thesis
    by (simp add: tryNext_def fetchBatch_closed)
qed (use assms in \<open>auto simp: fetchBatch_closed hasNext_def toArray_closed iterator_next_closed close_def\<close>)

lemma run_ops_closed:
  "isClosed c \<Longrightarrow> fst (run_ops st ops w c) = w \<and> isClosed (snd (run_ops st ops w c))"
proof (induction ops arbitrary: c)
  case Nil
  then show ?case by simp
next
  case (Cons op ops)
  obtain w' c' where r: "run_op st op w c = (w', c')" by (cases "run_op st op w c")
  from run_op_closed [OF Cons.prems, of st op w] r have "w' = w" "isClosed c'" by simp_all
  with Cons.IH [of c'] r show ?case by simp
qed

text \<open>What holds of the claim: \<open>close\<close> is idempotent and sets the closed flag; an
  operation that starts on a closed cursor leaves the flag set and makes no call on the
  store, whatever operations follow; and \<open>next\<close> returns \<^verbatim>\<open>null\<close> on a closed cursor
  whose buffer is empty.\<close>

lemma closed_cursor_makes_no_call:
  "close (close c) = close c \<and> isClosed (close c)
   \<and> isClosed (snd (run_ops st ops w (close c)))
   \<and> calls (fst (run_ops st ops w (close c))) = calls w
   \<and> (isClosed c \<and> documents c = [] \<longrightarrow> fst (next_loop st w c) = Inr Null)"
proof -
  have c: "isClosed (close c)" by (simp add: close_def)
  from run_ops_closed [OF c, of st ops w]
  have "isClosed (snd (run_ops st ops w (close c)))"
    and "calls (fst (run_ops st ops w (close c))) = calls w" by simp_all
  moreover have "isClosed c \<and> documents c = [] \<longrightarrow> fst (next_loop st w c) = Inr Null"
    using next_loop_closed [of c st w] by auto
  ultimately show ?thesis using c by (simp add: close_def)
qed

text \<open>The cursors that the operations make of a new one: started, or with an empty
  buffer and no batch source.\<close>

lemma fetchBatch_started:
  "fetchBatch st w c = (r, w', c') \<Longrightarrow> started_or_fresh c \<Longrightarrow> started_or_fresh c'"
  by (auto simp: fetchBatch_def start_query_def bind_and_query_def pull_batch_def Let_def
        started_or_fresh_def close_def
        split: if_splits option.splits sum.splits list.splits gen_event.splits prod.splits)

lemma shift_started:
  "shift c = (d, c1) \<Longrightarrow> started_or_fresh c \<Longrightarrow> started_or_fresh c1"
  by (auto simp: shift_def started_or_fresh_def split: list.splits)

lemma next_loop_started:
  "next_loop st w c = (r, w', c') \<Longrightarrow> started_or_fresh c \<Longrightarrow> started_or_fresh c'"
proof (induction st w c arbitrary: r w' c' rule: next_loop.induct)
  case (1 st w c)
  obtain doc c1 where s: "shift c = (doc, c1)" by (cases "shift c")
  from shift_started [OF s "1.prems"(2)] have c1: "started_or_fresh c1" .
  show ?case
  proof (cases "not_nullish doc")
    case True
    with "1.prems"(1) s c1 show ?thesis
      by (subst (asm) next_loop.simps) auto
  next
    case False
    obtain r1 w1 c2 where f: "fetchBatch st w c1 = (r1, w1, c2)" by (cases "fetchBatch st w c1")
    from fetchBatch_started [OF f c1] have c2: "started_or_fresh c2" .
    show ?thesis
    proof (cases r1)
      case (Inl e)
      with "1.prems"(1) s False f c2 show ?thesis
        by (subst (asm) next_loop.simps) auto
    next
      case (Inr u)
      show ?thesis
      proof (cases "documents c2 = []")
        case True
        with "1.prems"(1) s False f c2 Inr show ?thesis
          by (subst (asm) next_loop.simps) auto
      next
        case ne: False
        from "1.prems"(1) s False f Inr ne have "next_loop st w1 c2 = (r, w', c')"
          by (subst (asm) next_loop.simps) auto
        from "1.IH" [OF s [symmetric] False f [symmetric] Inr refl ne this c2]
        show ?thesis .
      qed
    qed
  qed
qed

lemma fetchBatch_isStarted:
  "fetchBatch st w c = (r, w', c') \<Longrightarrow> isStarted c \<Longrightarrow> isStarted c'"
  by (auto simp: fetchBatch_def pull_batch_def Let_def close_def
        split: if_splits option.splits sum.splits list.splits gen_event.splits)

lemma shift_isStarted:
  "shift c = (d, c1) \<Longrightarrow> isStarted c1 = isStarted c"
  by (auto simp: shift_def split: list.splits)

lemma next_loop_isStarted:
  "next_loop st w c = (r, w', c') \<Longrightarrow> isStarted c \<Longrightarrow> isStarted c'"
proof (induction st w c arbitrary: r w' c' rule: next_loop.induct)
  case (1 st w c)
  obtain doc c1 where s: "shift c = (doc, c1)" by (cases "shift c")
  from shift_isStarted [OF s] "1.prems"(2) have c1: "isStarted c1" by simp
  show ?case
  proof (cases "not_nullish doc")
    case True
    with "1.prems"(1) s c1 show ?thesis
      by (subst (asm) next_loop.simps) auto
  next
    case False
    obtain r1 w1 c2 where f: "fetchBatch st w c1 = (r1, w1, c2)" by (cases "fetchBatch st w c1")
    from fetchBatch_isStarted [OF f c1] have c2: "isStarted c2" .
    show ?thesis
    proof (cases r1)
      case (Inl e)
      with "1.prems"(1) s False f c2 show ?thesis
        by (subst (asm) next_loop.simps) auto
    next
      case (Inr u)
      show ?thesis
      proof (cases "documents c2 = []")
        case True
        with "1.prems"(1) s False f c2 Inr show ?thesis
          by (subst (asm) next_loop.simps) auto
      next
        case ne: False
        from "1.prems"(1) s False f Inr ne have "next_loop st w1 c2 = (r, w', c')"
          by (subst (asm) next_loop.simps) auto
        from "1.IH" [OF s [symmetric] False f [symmetric] Inr refl ne this c2]
        show ?thesis .
      qed
    qed
  qed
qed

lemma toArray_loop_started:
  "toArray_loop st w c array = (r, w', c') \<Longrightarrow> started_or_fresh c \<Longrightarrow> started_or_fresh c'"
proof (induction st w c array arbitrary: r w' c' rule: toArray_loop.induct)
  case (1 st w c array)
  show ?case
  proof (cases "length array + length (documents c) > maxLimit c")
    case True
    with "1.prems" show ?thesis
      by (subst (asm) toArray_loop.simps) auto
  next
    case False
    obtain r1 w1 c1 where f: "fetchBatch st w c = (r1, w1, c1)" by (cases "fetchBatch st w c")
    from fetchBatch_started [OF f "1.prems"(2)] have c1: "started_or_fresh c1" .
    show ?thesis
    proof (cases r1)
      case (Inl e)
      with "1.prems"(1) False f c1 show ?thesis
        by (subst (asm) toArray_loop.simps) auto
    next
      case (Inr u)
      show ?thesis
      proof (cases "isClosed c1")
        case True
        with "1.prems"(1) False f c1 Inr show ?thesis
          by (subst (asm) toArray_loop.simps) auto
      next
        case op: False
        from "1.prems"(1) False f Inr op
        have "toArray_loop st w1 c1 (array @ documents c) = (r, w', c')"
          by (subst (asm) toArray_loop.simps) auto
        from "1.IH" [OF False f [symmetric] Inr refl op this c1]
        show ?thesis .
      qed
    qed
  qed
qed

lemma hasNext_started:
  "hasNext st w c = (r, w', c') \<Longrightarrow> started_or_fresh c \<Longrightarrow> started_or_fresh c'"
  by (auto simp: hasNext_def split: if_splits prod.splits sum.splits dest: fetchBatch_started)

lemma tryNext_started:
  "tryNext st w c = (r, w', c') \<Longrightarrow> started_or_fresh c \<Longrightarrow> started_or_fresh c'"
  by (auto simp: tryNext_def split: if_splits prod.splits sum.splits
        dest!: shift_started fetchBatch_started)

lemma close_started: "started_or_fresh c \<Longrightarrow> started_or_fresh (close c)"
  by (simp add: started_or_fresh_def close_def)

lemma iterator_loop_started:
  "iterator_loop st w c = (r, w', c') \<Longrightarrow> started_or_fresh c \<Longrightarrow> started_or_fresh c'"
  by (auto simp: iterator_loop_def close_started split: if_splits prod.splits sum.splits
        dest: next_loop_started)

lemma fetchBatch_resume_isStarted:
  "fetchBatch_resume st t w c = (t', w', c') \<Longrightarrow> isStarted c \<Longrightarrow> isStarted c'"
  by (auto simp: fetchBatch_resume_def statement_ready_def query_call_def batch_call_def Let_def
        close_def
        split: fetch_task.splits sum.splits option.splits list.splits gen_event.splits if_splits)

lemma fetchBatch_resume_decreases:
  "fetchBatch_resume st t w c = (t', w', c') \<Longrightarrow> \<forall>r. t \<noteq> Finished r \<Longrightarrow>
   awaits_left t' < awaits_left t"
  by (auto simp: fetchBatch_resume_def statement_ready_def query_call_def batch_call_def Let_def
        split: fetch_task.splits sum.splits option.splits list.splits gen_event.splits if_splits)

lemma fetchBatch_finish_isStarted:
  "fetchBatch_finish st t w c = (r, w', c') \<Longrightarrow> isStarted c \<Longrightarrow> isStarted c'"
proof (induction "awaits_left t" arbitrary: t w c rule: less_induct)
  case less
  show ?case
  proof (cases "\<exists>r. t = Finished r")
    case True
    with less.prems show ?thesis by auto
  next
    case False
    obtain t1 w1 c1 where f: "fetchBatch_resume st t w c = (t1, w1, c1)"
      by (cases "fetchBatch_resume st t w c")
    from False have lt: "awaits_left t1 < awaits_left t"
      using fetchBatch_resume_decreases [OF f] by auto
    from False f less.prems(1) have "fetchBatch_finish st t1 w1 c1 = (r, w', c')"
      by (cases t) (simp_all add: fetchBatch_finish_steps)
    from less.hyps [OF lt this fetchBatch_resume_isStarted [OF f less.prems(2)]]
    show ?thesis .
  qed
qed

lemma settle_isStarted:
  "settle st ts w c = (w', c') \<Longrightarrow> isStarted c \<Longrightarrow> isStarted c'"
proof (induction ts arbitrary: w c)
  case Nil
  then show ?case by simp
next
  case (Cons t ts)
  obtain r w1 c1 where f: "fetchBatch_finish st t w c = (r, w1, c1)"
    by (cases "fetchBatch_finish st t w c")
  from fetchBatch_finish_isStarted [OF f Cons.prems(2)] have "isStarted c1" .
  with Cons.IH [of w1 c1] Cons.prems(1) f show ?case by simp
qed

lemma iterator_next_started:
  assumes "iterator_next st w c = (r, ts, w', c')" and "started_or_fresh c"
  shows "started_or_fresh c' \<and> (ts \<noteq> [] \<longrightarrow> isStarted c')"
proof (cases "isClosed c \<or> isStarted c")
  case True
  with assms show ?thesis
    by (auto simp: iterator_next_def split: if_splits prod.splits dest: iterator_loop_started)
next
  case False
  show ?thesis
  proof (cases "documents c \<noteq> [] \<or> gen c \<noteq> None")
    case True
    with False assms show ?thesis by (auto simp: iterator_next_def)
  next
    case fresh: False
    obtain t w1 c1 where b: "fetchBatch_begin w c = (t, w1, c1)" by (cases "fetchBatch_begin w c")
    with False have s1: "isStarted c1"
      by (auto simp: fetchBatch_begin_def statement_ready_def query_call_def Let_def
            split: option.splits if_splits)
    obtain r2 w2 c2 where l: "iterator_loop st w1 (c1\<lparr>isStarted := True\<rparr>) = (r2, w2, c2)"
      by (cases "iterator_loop st w1 (c1\<lparr>isStarted := True\<rparr>)")
    have "isStarted c2"
      using l
      by (auto simp: iterator_loop_def close_def split: if_splits prod.splits sum.splits
            dest: next_loop_isStarted)
    with False fresh assms b l show ?thesis
      by (auto simp: iterator_next_def started_or_fresh_def)
  qed
qed

lemma run_op_started:
  assumes "started_or_fresh c"
  shows "started_or_fresh (snd (run_op st op w c))"
proof (cases op)
  case OpFetchBatch
  with assms fetchBatch_started [of st w c] show ?thesis
    by (cases "fetchBatch st w c") auto
next
  case OpNext
  with assms next_loop_started [of st w c] show ?thesis
    by (cases "next_loop st w c") auto
next
  case OpHasNext
  with assms hasNext_started [of st w c] show ?thesis
    by (cases "hasNext st w c") auto
next
  case OpTryNext
  with assms tryNext_started [of st w c] show ?thesis
    by (cases "tryNext st w c") auto
next
  case OpToArray
  with assms toArray_loop_started [of st w c "[]"] show ?thesis
    by (cases "toArray_loop st w c []") (auto simp: toArray_def)
next
  case OpIterate
  obtain r ts w1 c1 where i: "iterator_next st w c = (r, ts, w1, c1)"
    by (cases "iterator_next st w c")
  obtain w2 c2 where s: "settle st ts w1 c1 = (w2, c2)" by (cases "settle st ts w1 c1")
  from iterator_next_started [OF i assms]
  have c1: "started_or_fresh c1" and ts: "ts \<noteq> [] \<longrightarrow> isStarted c1" by simp_all
  have "started_or_fresh c2"
  proof (cases "ts = []")
    case True
    with s c1 show ?thesis by simp
  next
    case False
    with ts settle_isStarted [OF s] show ?thesis by (simp add: started_or_fresh_def)
  qed
  with OpIterate i s show ?thesis by simp
next
  case OpClose
  with assms show ?thesis by (simp add: close_started)
qed

text \<open>Every cursor that the operations make of a new one is started, or has an empty
  buffer and no batch source.\<close>

lemma run_ops_started:
  "started_or_fresh c \<Longrightarrow> started_or_fresh (snd (run_ops st ops w c))"
proof (induction ops arbitrary: w c)
  case Nil
  then show ?case by simp
next
  case (Cons op ops)
  obtain w' c' where r: "run_op st op w c = (w', c')" by (cases "run_op st op w c")
  from run_op_started [OF Cons.prems, of st op w] r have "started_or_fresh c'" by simp
  from Cons.IH [OF this, of w'] r show ?case by simp
qed

lemma new_cursor_fresh: "started_or_fresh (new_cursor stmt b lim)"
  by (simp add: started_or_fresh_def new_cursor_def)

subsection \<open>Projections that mix inclusion and exclusion\<close>

text \<open>
  Claim C8. A projection that gives \<open>1\<close> to one field and \<open>0\<close> to another (neither being
  \<open>_id\<close>) should fail with the projection-conflict error. The test sits in the arms for
  \<open>1\<close> and for \<open>0\<close> only: a field with any other value between the two sets the mode to
  inclusion without a test, and the projection \<open>{a: 0, c: 5, b: 1}\<close> compiles, \<open>a\<close> left
  out and \<open>c\<close> and \<open>b\<close> selected.
\<close>

theorem projection_mixed_not_rejected:
  "conputeProjection simple_collection (Obj [(''a'', Num 0), (''c'', Num 5), (''b'', Num 1)]) False =
     Inr (''$t.'' @ DQ @ ''kvid'' @ DQ @ ''[] AS kvid, 5 AS c, $t.'' @ DQ @ ''b'' @ DQ @ ''[] AS b'')"
  by code_simp

text \<open>With the two fields alone, in either order, the conflict is detected.\<close>

lemma projection_conflict_detected:
  "conputeProjection simple_collection (Obj [(''a'', Num 1), (''b'', Num 0)]) sg = Inl ProjectionConflict"
  "conputeProjection simple_collection (Obj [(''a'', Num 0), (''b'', Num 1)]) sg = Inl ProjectionConflict"
  "conputeProjection simple_collection (Obj [(''a'', Bool True), (''b'', Bool False)]) sg = Inl ProjectionConflict"
  by (simp_all add: conputeProjection_def computePrjObjDeep.simps dot_split_def inherited_names_def
        nullish_def get_prop_def)

end
